theory Spec2Isabelle
  imports Complex_Main "HOL-Library.AList"
begin

section \<open>Musical Keys: the synthesis engine and the recording system\<close>

text \<open>
  A shallow embedding of \<^verbatim>\<open>js/audio-engine.js\<close> (class \<^verbatim>\<open>AudioEngine\<close>) and of
  \<^verbatim>\<open>js/recording.js\<close> (class \<^verbatim>\<open>RecordingSystem\<close>). The file of the engine holds
  two revisions of the class. The "Musical Keys" revision, with the voice counter, the
  guarded cleanup and the emergency stop, is the one the recording system and the event
  loop below drive; its methods carry the names of the source. The older "Qwertica Keys"
  revision is embedded beside it, its methods under the same names with the suffix
  \<open>_v1\<close>.

  The two objects are global singletons that mutate their own fields, call the Web Audio
  API and register timers. The model threads one record through every method: the fields
  of both objects under the names the source gives them, and the part of the browser the
  methods talk to (the clocks, the identities of the audio nodes created so far, the
  list of Web Audio calls performed, the pending timers).

  Conventions.
  \<^item> JavaScript numbers are modelled by \<open>real\<close> (times, velocities, gains) and by
    \<open>int\<close> (MIDI note numbers, the voice counter); rounding of IEEE doubles is not
    modelled.
  \<^item> An audio node is identified by a natural number taken from a counter; the test
    \<^verbatim>\<open>currentNote.osc === osc\<close> compares these identities.
  \<^item> A Web Audio call either is performed (it is appended to \<open>trace\<close>) or throws. The
    calls that throw are the ones listed in \<open>faulty\<close>, which the environment may change
    at any time. Timer and DOM calls do not throw; the writes to the DOM
    (\<^verbatim>\<open>updateSpeakerIcon\<close>, \<^verbatim>\<open>visualizeNote\<close>) and to the console change nothing
    that the two classes read back, and are left out.
  \<^item> An event object is a record with the four properties the recorder is documented
    to receive.
\<close>

subsection \<open>Data\<close>

datatype gain_value = Value real | CurrentValue

datatype audio_call =
    NewAudioContext
  | CreateGain nat
  | CreateOscillator nat
  | SetGainValue nat real
  | SetOscType nat string
  | SetFrequencyValue nat real
  | Connect nat "nat option"
  | ConnectDestination nat
  | SetValueAtTime nat gain_value real
  | LinearRampToValueAtTime nat real real
  | ExponentialRampToValueAtTime nat real real
  | CancelScheduledValues nat real
  | OscStart nat real
  | OscStop nat real
  | Disconnect nat

record voice =
  osc :: nat
  noteGain :: nat
  startTime :: real

record event =
  ev_type :: string
  ev_note :: int
  velocity :: real
  timestamp :: real

text \<open>The closures handed to \<^verbatim>\<open>setTimeout\<close>, with the variables they capture.\<close>

datatype callback =
    Cleanup int nat nat
  | DisconnectVoice nat nat
  | PlaybackEvent event nat
  | AutoStop
  | DeleteEntry int

record timer =
  tid :: nat
  delay :: real
  callback :: callback

record world =
  isInitialized :: bool
  masterGain :: "nat option"
  activeNotes :: "(int \<times> voice) list"
  activeNoteCount :: int
  isRecording :: bool
  isPlaying :: bool
  recordedEvents :: "event list"
  recordingStartTime :: real
  playbackTimeouts :: "nat list"
  currentTime :: real
  perfNow :: real
  dateNow :: string
  nextNode :: nat
  trace :: "audio_call list"
  faulty :: "audio_call list"
  timers :: "timer list"
  nextTimer :: nat

text \<open>The state after both constructors have run and before any user gesture.\<close>

definition newWorld :: world where
  "newWorld =
     \<lparr>isInitialized = False, masterGain = None, activeNotes = [], activeNoteCount = 0,
      isRecording = False, isPlaying = False, recordedEvents = [], recordingStartTime = 0,
      playbackTimeouts = [], currentTime = 0, perfNow = 0, dateNow = [], nextNode = 0,
      trace = [], faulty = [], timers = [], nextTimer = 1\<rparr>"

subsection \<open>Exceptions, Web Audio calls and timers\<close>

text \<open>
  A method either returns or throws; in both cases the state reached so far stays.
  \<open>and_then\<close> is sequencing, \<open>try_catch\<close> a \<^verbatim>\<open>try { } catch { }\<close> block, \<open>settle\<close> the
  top of the event loop, where an uncaught exception is reported and dropped.
\<close>

datatype 'a outcome = Returned 'a | Thrown 'a

fun and_then :: "'a outcome \<Rightarrow> ('a \<Rightarrow> 'a outcome) \<Rightarrow> 'a outcome" where
  "and_then (Returned w) f = f w"
| "and_then (Thrown w) f = Thrown w"

fun try_catch :: "'a outcome \<Rightarrow> ('a \<Rightarrow> 'a outcome) \<Rightarrow> 'a outcome" where
  "try_catch (Returned w) h = Returned w"
| "try_catch (Thrown w) h = h w"

fun settle :: "'a outcome \<Rightarrow> 'a" where
  "settle (Returned w) = w"
| "settle (Thrown w) = w"


fun perform :: "audio_call list \<Rightarrow> world \<Rightarrow> world outcome" where
  "perform [] w = Returned w"
| "perform (c # cs) w =
     (if c \<in> set (faulty w) then Thrown w
      else perform cs (w\<lparr>trace := trace w @ [c]\<rparr>))"

definition setTimeout :: "callback \<Rightarrow> real \<Rightarrow> world \<Rightarrow> nat \<times> world" where
  "setTimeout cb ms w =
     (nextTimer w,
      w\<lparr>timers := timers w @ [\<lparr>tid = nextTimer w, delay = ms, callback = cb\<rparr>],
        nextTimer := Suc (nextTimer w)\<rparr>)"

definition clearTimeout :: "nat \<Rightarrow> world \<Rightarrow> world" where
  "clearTimeout timeoutId w = w\<lparr>timers := filter (\<lambda>t. tid t \<noteq> timeoutId) (timers w)\<rparr>"

subsection \<open>AudioEngine\<close>

definition init :: "world \<Rightarrow> world outcome" where
  "init w =
     (if isInitialized w then Returned w
      else
        and_then (perform [NewAudioContext, CreateGain (nextNode w)] w) (\<lambda>w1.
        and_then (perform [SetGainValue (nextNode w) 1, ConnectDestination (nextNode w)]
                    (w1\<lparr>masterGain := Some (nextNode w), nextNode := Suc (nextNode w)\<rparr>)) (\<lambda>w2.
        Returned (w2\<lparr>isInitialized := True\<rparr>))))"

definition midiToFrequency :: "int \<Rightarrow> real" where
  "midiToFrequency midi = 440 * 2 powr ((real_of_int midi - 69) / 12)"

definition playNote :: "int \<Rightarrow> real \<Rightarrow> world \<Rightarrow> world outcome" where
  "playNote midi vel w =
     (if \<not> isInitialized w then Returned w
      else if map_of (activeNotes w) midi \<noteq> None then Returned w
      else
        let now = currentTime w;
            frequency = midiToFrequency midi;
            oscNode = nextNode w;
            gainNode = Suc (nextNode w)
        in try_catch
             (and_then
                (perform
                   [CreateOscillator oscNode, SetOscType oscNode ''triangle'', SetFrequencyValue oscNode frequency,
                    CreateGain gainNode, SetGainValue gainNode 0,
                    Connect oscNode (Some gainNode), Connect gainNode (masterGain w),
                    SetValueAtTime gainNode (Value 0) now,
                    LinearRampToValueAtTime gainNode vel (now + 0.01),
                    ExponentialRampToValueAtTime gainNode (vel * 0.7) (now + 0.3),
                    OscStart oscNode now]
                   (w\<lparr>nextNode := nextNode w + 2\<rparr>))
                (\<lambda>w1. Returned
                   (w1\<lparr>activeNotes :=
                         AList.update midi \<lparr>osc = oscNode, noteGain = gainNode, startTime = now\<rparr> (activeNotes w1),
                       activeNoteCount := activeNoteCount w1 + 1\<rparr>)))
             (\<lambda>w1. Returned w1))"

text \<open>The closure \<^verbatim>\<open>stopNote\<close> registers with a delay of 200 ms.\<close>

definition cleanup :: "int \<Rightarrow> nat \<Rightarrow> nat \<Rightarrow> world \<Rightarrow> world outcome" where
  "cleanup midi oscNode gainNode w =
     (case map_of (activeNotes w) midi of
        None \<Rightarrow> Returned w
      | Some currentNote \<Rightarrow>
          if osc currentNote = oscNode then
            and_then (try_catch (perform [Disconnect oscNode, Disconnect gainNode] w) (\<lambda>w1. Returned w1)) (\<lambda>w1.
            Returned (w1\<lparr>activeNotes := AList.delete midi (activeNotes w1),
                        activeNoteCount := activeNoteCount w1 - 1\<rparr>))
          else Returned w)"

definition stopNote :: "int \<Rightarrow> world \<Rightarrow> world outcome" where
  "stopNote midi w =
     (if \<not> isInitialized w then Returned w
      else case map_of (activeNotes w) midi of
        None \<Rightarrow> Returned w
      | Some noteData \<Rightarrow>
          let oscNode = osc noteData;
              gainNode = noteGain noteData;
              now = currentTime w
          in try_catch
               (and_then
                  (perform
                     [CancelScheduledValues gainNode now,
                      SetValueAtTime gainNode CurrentValue now,
                      ExponentialRampToValueAtTime gainNode 0.001 (now + 0.1),
                      OscStop oscNode (now + 0.15)] w)
                  (\<lambda>w1. Returned (snd (setTimeout (Cleanup midi oscNode gainNode) 200 w1))))
               (\<lambda>w1. Returned
                  (w1\<lparr>activeNotes := AList.delete midi (activeNotes w1),
                      activeNoteCount := activeNoteCount w1 - 1\<rparr>)))"

text \<open>The closure \<^verbatim>\<open>stopAllNotes\<close> registers, per voice, with a delay of 150 ms.\<close>

definition disconnectVoice :: "nat \<Rightarrow> nat \<Rightarrow> world \<Rightarrow> world outcome" where
  "disconnectVoice oscNode gainNode w = try_catch (perform [Disconnect oscNode, Disconnect gainNode] w) (\<lambda>w1. Returned w1)"

text \<open>The body of the \<^verbatim>\<open>forEach\<close> of \<^verbatim>\<open>stopAllNotes\<close>, and the loop itself.\<close>

definition stopVoice :: "real \<Rightarrow> int \<times> voice \<Rightarrow> world \<Rightarrow> world outcome" where
  "stopVoice now entry w =
     (let oscNode = osc (snd entry);
          gainNode = noteGain (snd entry)
      in try_catch
           (and_then
              (perform
                 [CancelScheduledValues gainNode now,
                  SetValueAtTime gainNode CurrentValue now,
                  ExponentialRampToValueAtTime gainNode 0.001 (now + 0.05),
                  OscStop oscNode (now + 0.1)] w)
              (\<lambda>w1. Returned (snd (setTimeout (DisconnectVoice oscNode gainNode) 150 w1))))
           (\<lambda>w1. Returned w1))"

fun stopVoices :: "real \<Rightarrow> (int \<times> voice) list \<Rightarrow> world \<Rightarrow> world outcome" where
  "stopVoices now [] w = Returned w"
| "stopVoices now (entry # rest) w = and_then (stopVoice now entry w) (stopVoices now rest)"

definition stopAllNotes :: "world \<Rightarrow> world outcome" where
  "stopAllNotes w =
     (if \<not> isInitialized w then Returned w
      else
        let now = currentTime w;
            notesToStop = activeNotes w
        in and_then (stopVoices now notesToStop w) (\<lambda>w1.
           Returned (w1\<lparr>activeNotes := [], activeNoteCount := 0\<rparr>)))"

subsection \<open>AudioEngine, the older revision\<close>

text \<open>
  The older revision has the same fields but for the counter, which it leaves alone, and
  the same \<^verbatim>\<open>init\<close>. Its \<^verbatim>\<open>playNote\<close> has no \<^verbatim>\<open>try\<close>, so a failing audio call
  leaves the method by an exception; a voice is stored without a start time (the field
  of the record is set to 0). Its \<^verbatim>\<open>stopNote\<close> releases over 300 ms and registers, with
  a delay of 400 ms, a closure that deletes the entry of the note whatever it holds then
  (\<open>DeleteEntry\<close>). Its \<^verbatim>\<open>stopAllNotes\<close> calls \<^verbatim>\<open>stopNote\<close> for the keys of the map in
  their order; \<^verbatim>\<open>stopNote\<close> can delete no other key than its own, so the loop over the
  live keys visits the keys the map had at the call.
\<close>

definition playNote_v1 :: "int \<Rightarrow> real \<Rightarrow> world \<Rightarrow> world outcome" where
  "playNote_v1 midi vel w =
     (if \<not> isInitialized w then Returned w
      else if map_of (activeNotes w) midi \<noteq> None then Returned w
      else
        let now = currentTime w;
            frequency = midiToFrequency midi;
            oscNode = nextNode w;
            gainNode = Suc (nextNode w)
        in and_then
             (perform
                [CreateOscillator oscNode, SetOscType oscNode ''triangle'', SetFrequencyValue oscNode frequency,
                 CreateGain gainNode, SetGainValue gainNode 0,
                 Connect oscNode (Some gainNode), Connect gainNode (masterGain w),
                 LinearRampToValueAtTime gainNode vel (now + 0.01),
                 ExponentialRampToValueAtTime gainNode (vel * 0.7) (now + 0.3),
                 OscStart oscNode now]
                (w\<lparr>nextNode := nextNode w + 2\<rparr>))
             (\<lambda>w1. Returned
                (w1\<lparr>activeNotes :=
                      AList.update midi \<lparr>osc = oscNode, noteGain = gainNode, startTime = 0\<rparr> (activeNotes w1)\<rparr>)))"

definition stopNote_v1 :: "int \<Rightarrow> world \<Rightarrow> world outcome" where
  "stopNote_v1 midi w =
     (if \<not> isInitialized w then Returned w
      else case map_of (activeNotes w) midi of
        None \<Rightarrow> Returned w
      | Some noteData \<Rightarrow>
          let oscNode = osc noteData;
              gainNode = noteGain noteData;
              now = currentTime w
          in try_catch
               (and_then
                  (perform
                     [CancelScheduledValues gainNode now,
                      SetValueAtTime gainNode CurrentValue now,
                      ExponentialRampToValueAtTime gainNode 0.001 (now + 0.3),
                      OscStop oscNode (now + 0.35)] w)
                  (\<lambda>w1. Returned (snd (setTimeout (DeleteEntry midi) 400 w1))))
               (\<lambda>w1. Returned (w1\<lparr>activeNotes := AList.delete midi (activeNotes w1)\<rparr>)))"

fun stopNotes_v1 :: "int list \<Rightarrow> world \<Rightarrow> world outcome" where
  "stopNotes_v1 [] w = Returned w"
| "stopNotes_v1 (midi # rest) w = and_then (stopNote_v1 midi w) (stopNotes_v1 rest)"

definition stopAllNotes_v1 :: "world \<Rightarrow> world outcome" where
  "stopAllNotes_v1 w = stopNotes_v1 (map fst (activeNotes w)) w"

text \<open>The closure the older \<^verbatim>\<open>stopNote\<close> registers.\<close>

definition deleteEntry :: "int \<Rightarrow> world \<Rightarrow> world outcome" where
  "deleteEntry midi w = Returned (w\<lparr>activeNotes := AList.delete midi (activeNotes w)\<rparr>)"

subsection \<open>AudioEngine, queries\<close>

definition isReady :: "world \<Rightarrow> bool" where
  "isReady w = isInitialized w"

definition getActiveNoteCount :: "world \<Rightarrow> int" where
  "getActiveNoteCount w = activeNoteCount w"

subsection \<open>RecordingSystem\<close>

definition startRecording :: "world \<Rightarrow> world" where
  "startRecording w =
     (if isRecording w then w
      else w\<lparr>isRecording := True, recordedEvents := [], recordingStartTime := perfNow w\<rparr>)"

definition stopRecording :: "world \<Rightarrow> world" where
  "stopRecording w = (if \<not> isRecording w then w else w\<lparr>isRecording := False\<rparr>)"

definition recordEvent :: "event \<Rightarrow> world \<Rightarrow> world" where
  "recordEvent event w =
     (if \<not> isRecording w then w
      else
        let adjustedEvent = event\<lparr>timestamp := timestamp event - recordingStartTime w\<rparr>
        in w\<lparr>recordedEvents := recordedEvents w @ [adjustedEvent]\<rparr>)"

definition isCurrentlyRecording :: "world \<Rightarrow> bool" where
  "isCurrentlyRecording w = isRecording w"

definition hasRecording :: "world \<Rightarrow> bool" where
  "hasRecording w = (length (recordedEvents w) > 0)"

definition getEventCount :: "world \<Rightarrow> nat" where
  "getEventCount w = length (recordedEvents w)"

text \<open>The \<^verbatim>\<open>forEach\<close> of \<^verbatim>\<open>playRecording\<close>: one timer per event, its identifier pushed.\<close>

fun scheduleEvents :: "event list \<Rightarrow> nat \<Rightarrow> world \<Rightarrow> world" where
  "scheduleEvents [] index w = w"
| "scheduleEvents (event # rest) index w =
     (let (timeoutId, w1) = setTimeout (PlaybackEvent event index) (timestamp event) w
      in scheduleEvents rest (Suc index)
           (w1\<lparr>playbackTimeouts := playbackTimeouts w1 @ [timeoutId]\<rparr>))"

definition playRecording :: "world \<Rightarrow> world" where
  "playRecording w =
     (if isPlaying w then w
      else if \<not> hasRecording w then w
      else scheduleEvents (recordedEvents w) 0 (w\<lparr>isPlaying := True, playbackTimeouts := []\<rparr>))"

definition stopPlayback :: "world \<Rightarrow> world outcome" where
  "stopPlayback w =
     (if \<not> isPlaying w then Returned w
      else
        let w1 = fold clearTimeout (playbackTimeouts w) w
        in and_then (stopAllNotes (w1\<lparr>playbackTimeouts := []\<rparr>)) (\<lambda>w2.
           Returned (w2\<lparr>isPlaying := False\<rparr>)))"

text \<open>The closure \<^verbatim>\<open>playRecording\<close> registers for the event at position \<open>index\<close>.\<close>

definition playbackEvent :: "event \<Rightarrow> nat \<Rightarrow> world \<Rightarrow> world outcome" where
  "playbackEvent event index w =
     and_then
       (if ev_type event = ''noteOn'' then playNote (ev_note event) (velocity event) w
        else if ev_type event = ''noteOff'' then stopNote (ev_note event) w
        else Returned w)
       (\<lambda>w1. Returned
          (if int index = int (length (recordedEvents w1)) - 1
           then snd (setTimeout AutoStop 500 w1)
           else w1))"

definition isCurrentlyPlaying :: "world \<Rightarrow> bool" where
  "isCurrentlyPlaying w = isPlaying w"

definition clearRecording :: "world \<Rightarrow> world" where
  "clearRecording w = w\<lparr>recordedEvents := []\<rparr>"

subsection \<open>The recording document\<close>

text \<open>
  The text layer of JSON is not modelled: a file is represented by what
  \<^verbatim>\<open>JSON.parse\<close> makes of its text, and \<^verbatim>\<open>JSON.stringify\<close> followed by
  \<^verbatim>\<open>JSON.parse\<close> returns an object equal to the one written (which holds for
  strings, finite numbers, and arrays and objects of these). A property of a parsed
  document is a \<open>jsvalue\<close>; \<open>JUndefined\<close> stands for an absent property, \<open>JObject\<close>
  for an object that is not an array, and an array holds event objects.
\<close>

datatype jsvalue =
    JUndefined
  | JNull
  | JBool bool
  | JNumber real
  | JString string
  | JObject
  | JArray "event list"

record recording_data =
  version :: jsvalue
  date :: jsvalue
  duration :: jsvalue
  eventCount :: jsvalue
  events :: jsvalue

text \<open>
  What \<^verbatim>\<open>FileReader\<close> and \<^verbatim>\<open>JSON.parse\<close> deliver for a file: a read error, text
  that does not parse, the value \<^verbatim>\<open>null\<close>, another value that is not an object with
  properties of its own to read (a boolean, a number, a string, an array), or an object.
\<close>

datatype file_content = Unreadable | NotJSON | JSONNull | JSONOther | JSONObject recording_data

datatype load_error = FailedToReadFile | SyntaxError | TypeError | InvalidRecordingFormat

fun truthy :: "jsvalue \<Rightarrow> bool" where
  "truthy JUndefined = False"
| "truthy JNull = False"
| "truthy (JBool b) = b"
| "truthy (JNumber x) = (x \<noteq> 0)"
| "truthy (JString s) = (s \<noteq> [])"
| "truthy JObject = True"
| "truthy (JArray es) = True"

fun isArray :: "jsvalue \<Rightarrow> bool" where
  "isArray (JArray es) = True"
| "isArray v = False"

fun elements :: "jsvalue \<Rightarrow> event list" where
  "elements (JArray es) = es"
| "elements v = []"

definition saveRecording :: "world \<Rightarrow> recording_data option" where
  "saveRecording w =
     (if \<not> hasRecording w then None
      else Some
        \<lparr>version = JString ''1.0'',
         date = JString (dateNow w),
         duration = JNumber (timestamp (recordedEvents w ! (length (recordedEvents w) - 1))),
         eventCount = JNumber (real (length (recordedEvents w))),
         events = JArray (recordedEvents w)\<rparr>)"

text \<open>
  \<^verbatim>\<open>loadRecording\<close> returns a promise; the model returns the state together with the
  way the promise settles (\<open>Inl\<close> the rejection, \<open>Inr\<close> the parsed document).
\<close>

definition loadRecording :: "file_content \<Rightarrow> world \<Rightarrow> world \<times> (load_error + recording_data)" where
  "loadRecording f w =
     (case f of
        Unreadable \<Rightarrow> (w, Inl FailedToReadFile)
      | NotJSON \<Rightarrow> (w, Inl SyntaxError)
      | JSONNull \<Rightarrow> (w, Inl TypeError)
      | JSONOther \<Rightarrow> (w, Inl InvalidRecordingFormat)
      | JSONObject data \<Rightarrow>
          if \<not> truthy (events data) \<or> \<not> isArray (events data)
          then (w, Inl InvalidRecordingFormat)
          else (w\<lparr>recordedEvents := elements (events data)\<rparr>, Inr data))"

subsection \<open>The event loop\<close>

definition runCallback :: "callback \<Rightarrow> world \<Rightarrow> world outcome" where
  "runCallback cb w =
     (case cb of
        Cleanup midi oscNode gainNode \<Rightarrow> cleanup midi oscNode gainNode w
      | DisconnectVoice oscNode gainNode \<Rightarrow> disconnectVoice oscNode gainNode w
      | PlaybackEvent event index \<Rightarrow> playbackEvent event index w
      | AutoStop \<Rightarrow> stopPlayback w
      | DeleteEntry midi \<Rightarrow> deleteEntry midi w)"

text \<open>
  A pending timer fires: it leaves the queue and its closure runs. Which pending timer
  fires next is the host's choice; the model lets any of them fire.
\<close>

definition fire :: "nat \<Rightarrow> world \<Rightarrow> world" where
  "fire timeoutId w =
     (case find (\<lambda>t. tid t = timeoutId) (timers w) of
        None \<Rightarrow> w
      | Some t \<Rightarrow> settle (runCallback (callback t) (clearTimeout timeoutId w)))"

text \<open>
  Everything that can happen: a method of one of the two objects is called from the
  top level, a timer fires, time passes, the host changes which Web Audio calls fail.
\<close>

datatype action =
    Init
  | PlayNote int real
  | StopNote int
  | StopAllNotes
  | StartRecording
  | StopRecording
  | RecordEvent event
  | PlayRecording
  | StopPlayback
  | LoadRecording file_content
  | ClearRecording
  | Fire nat
  | Elapse real real string
  | HostFaults "audio_call list"

fun step :: "world \<Rightarrow> action \<Rightarrow> world" where
  "step w Init = settle (init w)"
| "step w (PlayNote midi vel) = settle (playNote midi vel w)"
| "step w (StopNote midi) = settle (stopNote midi w)"
| "step w StopAllNotes = settle (stopAllNotes w)"
| "step w StartRecording = startRecording w"
| "step w StopRecording = stopRecording w"
| "step w (RecordEvent event) = recordEvent event w"
| "step w PlayRecording = playRecording w"
| "step w StopPlayback = settle (stopPlayback w)"
| "step w (LoadRecording f) = fst (loadRecording f w)"
| "step w ClearRecording = clearRecording w"
| "step w (Fire timeoutId) = fire timeoutId w"
| "step w (Elapse seconds millis d) =
     w\<lparr>currentTime := currentTime w + \<bar>seconds\<bar>, perfNow := perfNow w + \<bar>millis\<bar>, dateNow := d\<rparr>"
| "step w (HostFaults cs) = w\<lparr>faulty := cs\<rparr>"

definition run :: "world \<Rightarrow> action list \<Rightarrow> world" where
  "run w as = foldl step w as"

subsection \<open>Invariants of the reachable states\<close>

fun is_playback :: "callback \<Rightarrow> bool" where
  "is_playback (PlaybackEvent event index) = True"
| "is_playback cb = False"

fun cleanup_known :: "nat \<Rightarrow> callback \<Rightarrow> bool" where
  "cleanup_known n (Cleanup midi oscNode gainNode) = (oscNode < n \<and> gainNode = Suc oscNode)"
| "cleanup_known n (DeleteEntry midi) = False"
| "cleanup_known n cb = True"

text \<open>
  The voice map: one entry per note, as many entries as the counter says, none before
  the engine is initialized, and every oscillator in it was created earlier, together
  with its gain node.
\<close>

definition voices_ok :: "world \<Rightarrow> bool" where
  "voices_ok w \<longleftrightarrow>
     distinct (map fst (activeNotes w)) \<and>
     activeNoteCount w = int (length (activeNotes w)) \<and>
     (\<not> isInitialized w \<longrightarrow> activeNotes w = []) \<and>
     (\<forall>e \<in> set (activeNotes w). osc (snd e) < nextNode w \<and> noteGain (snd e) = Suc (osc (snd e)))"

text \<open>
  The timer queue: identifiers are unique and were handed out earlier, a pending cleanup
  closure holds an oscillator that was created earlier and its gain node, no closure of
  the older revision is pending, the pending playback closures are
  exactly the pending timers listed in \<open>playbackTimeouts\<close>, and there is none when no
  playback is running.
\<close>

definition timers_ok :: "world \<Rightarrow> bool" where
  "timers_ok w \<longleftrightarrow>
     distinct (map tid (timers w)) \<and>
     (\<forall>t \<in> set (timers w). tid t < nextTimer w) \<and>
     (\<forall>i \<in> set (playbackTimeouts w). i < nextTimer w) \<and>
     (\<forall>t \<in> set (timers w). cleanup_known (nextNode w) (callback t)) \<and>
     (\<forall>t \<in> set (timers w). is_playback (callback t) = (tid t \<in> set (playbackTimeouts w))) \<and>
     (\<not> isPlaying w \<longrightarrow> (\<forall>t \<in> set (timers w). \<not> is_playback (callback t)))"

definition well_formed :: "world \<Rightarrow> bool" where
  "well_formed w \<longleftrightarrow> voices_ok w \<and> timers_ok w"

text \<open>The voices the engine holds for one note.\<close>

definition voicesFor :: "int \<Rightarrow> world \<Rightarrow> (int \<times> voice) list" where
  "voicesFor n w = filter (\<lambda>e. fst e = n) (activeNotes w)"

text \<open>Vocabulary for the load: the file delivers a document whose \<open>events\<close> property is an
  array; the file parses; the rejection comes from inspecting a parsed document.\<close>

fun has_event_sequence :: "file_content \<Rightarrow> bool" where
  "has_event_sequence (JSONObject data) = isArray (events data)"
| "has_event_sequence f = False"

fun parsed :: "file_content \<Rightarrow> bool" where
  "parsed Unreadable = False"
| "parsed NotJSON = False"
| "parsed f = True"

fun format_error :: "load_error \<Rightarrow> bool" where
  "format_error InvalidRecordingFormat = True"
| "format_error TypeError = True"
| "format_error e = False"

definition advances :: "world \<Rightarrow> world \<Rightarrow> bool" where
  "advances w w' \<longleftrightarrow>
     nextTimer w \<le> nextTimer w' \<and> nextNode w \<le> nextNode w' \<and>
     (\<forall>t \<in> set (timers w'). t \<in> set (timers w) \<or> nextTimer w \<le> tid t) \<and>
     (\<exists>tr. trace w' = trace w @ tr)"

definition adds_no_playback :: "world \<Rightarrow> world \<Rightarrow> bool" where
  "adds_no_playback w w' \<longleftrightarrow>
     (\<forall>t \<in> set (timers w'). is_playback (callback t) \<longrightarrow> t \<in> set (timers w))"

definition calm :: "world \<Rightarrow> world \<Rightarrow> bool" where
  "calm w w' \<longleftrightarrow>
     advances w w' \<and> adds_no_playback w w' \<and> recordedEvents w' = recordedEvents w \<and>
     faulty w' = faulty w"

fun mutates_log :: "action \<Rightarrow> bool" where
  "mutates_log StartRecording = True"
| "mutates_log (RecordEvent event) = True"
| "mutates_log (LoadRecording f) = True"
| "mutates_log ClearRecording = True"
| "mutates_log a = False"

text \<open>
  Vocabulary for the release of a voice. The two nodes of a voice are let go when
  \<^verbatim>\<open>disconnect()\<close> was called on both, or when the timer of an emergency stop that disconnects
  both is pending. An action disturbs the release of note \<open>n\<close> when it starts \<open>n\<close> again
  (\<^verbatim>\<open>playNote(n)\<close>, or the playback callback of a note-on of \<open>n\<close>) or when it makes Web Audio
  calls fail. \<open>pending_release\<close> is what holds between \<^verbatim>\<open>stopNote(n)\<close> and the end of the
  release: the stop of the oscillator is scheduled, and either the voice is in the map with its
  cleanup timer pending, or it has left the map and its nodes are let go.
\<close>

definition released :: "nat \<Rightarrow> nat \<Rightarrow> world \<Rightarrow> bool" where
  "released oscNode gainNode w \<longleftrightarrow>
     (Disconnect oscNode \<in> set (trace w) \<and> Disconnect gainNode \<in> set (trace w)) \<or>
     DisconnectVoice oscNode gainNode \<in> callback ` set (timers w)"



definition pending_release :: "int \<Rightarrow> voice \<Rightarrow> timer \<Rightarrow> real \<Rightarrow> world \<Rightarrow> bool" where
  "pending_release n v T s w \<longleftrightarrow>
     isInitialized w \<and> faulty w = [] \<and> OscStop (osc v) s \<in> set (trace w) \<and>
     tid T < nextTimer w \<and> (\<forall>t \<in> set (timers w). tid t = tid T \<longrightarrow> t = T) \<and>
     ((map_of (activeNotes w) n = Some v \<and> T \<in> set (timers w)) \<or>
      (map_of (activeNotes w) n = None \<and> released (osc v) (noteGain v) w))"

text \<open>Auxiliary notions for the proofs: what a call that only performs Web Audio calls and
  registers timers does to the state.\<close>

fun is_disconnect :: "callback \<Rightarrow> bool" where
  "is_disconnect (DisconnectVoice a b) = True"
| "is_disconnect cb = False"

definition grown :: "world \<Rightarrow> audio_call list \<Rightarrow> timer list \<Rightarrow> world" where
  "grown w pre ts =
     w\<lparr>trace := trace w @ pre, timers := timers w @ ts, nextTimer := nextTimer w + length ts\<rparr>"

definition disconnects_from :: "nat \<Rightarrow> timer list \<Rightarrow> bool" where
  "disconnects_from n ts \<longleftrightarrow>
     map tid ts = [n..<n + length ts] \<and> (\<forall>t \<in> set ts. is_disconnect (callback t))"

section \<open>Auxiliary facts\<close>

subsection \<open>What each method does to the state\<close>

lemma and_then_case:
  "and_then x f = (case x of Returned w \<Rightarrow> f w | Thrown w \<Rightarrow> Thrown w)"
  by (cases x) simp_all

lemma try_catch_case:
  "try_catch x h = (case x of Returned w \<Rightarrow> Returned w | Thrown w \<Rightarrow> h w)"
  by (cases x) simp_all

lemma perform_Returned:
  "perform cs w = Returned w' \<Longrightarrow> w' = w\<lparr>trace := trace w @ cs\<rparr>"
proof (induction cs arbitrary: w)
  case Nil
  then show ?case by simp
next
  case (Cons c cs)
  then have "perform cs (w\<lparr>trace := trace w @ [c]\<rparr>) = Returned w'"
    by (simp split: if_splits)
  from Cons.IH[OF this] show ?case by simp
qed

lemma perform_Thrown:
  "perform cs w = Thrown w' \<Longrightarrow> \<exists>pre. w' = w\<lparr>trace := trace w @ pre\<rparr>"
proof (induction cs arbitrary: w)
  case Nil
  then show ?case by simp
next
  case (Cons c cs)
  show ?case
  proof (cases "c \<in> set (faulty w)")
    case True
    with Cons.prems have "w' = w\<lparr>trace := trace w @ []\<rparr>" by simp
    then show ?thesis by blast
  next
    case False
    with Cons.prems have "perform cs (w\<lparr>trace := trace w @ [c]\<rparr>) = Thrown w'" by simp
    from Cons.IH[OF this] obtain pre where "w' = w\<lparr>trace := trace w @ [c] @ pre\<rparr>" by auto
    then show ?thesis by blast
  qed
qed

lemma perform_ok:
  "set cs \<inter> set (faulty w) = {} \<Longrightarrow> perform cs w = Returned (w\<lparr>trace := trace w @ cs\<rparr>)"
  by (induction cs arbitrary: w) auto

lemma playNote_shape:
  "playNote midi vel w = Returned w \<or>
   (\<exists>pre. playNote midi vel w = Returned (w\<lparr>nextNode := nextNode w + 2, trace := trace w @ pre\<rparr>)) \<or>
   (isInitialized w \<and> map_of (activeNotes w) midi = None \<and>
    (\<exists>pre. playNote midi vel w =
       Returned (w\<lparr>nextNode := nextNode w + 2, trace := trace w @ pre,
                  activeNotes := AList.update midi
                     \<lparr>osc = nextNode w, noteGain = Suc (nextNode w), startTime = currentTime w\<rparr>
                     (activeNotes w),
                  activeNoteCount := activeNoteCount w + 1\<rparr>)))"
  unfolding playNote_def Let_def and_then_case try_catch_case
  by (auto simp del: perform.simps split: outcome.splits dest!: perform_Returned perform_Thrown)

lemma stopNote_shape:
  "stopNote midi w = Returned w \<or>
   (\<exists>v pre. isInitialized w \<and> map_of (activeNotes w) midi = Some v \<and>
      (stopNote midi w =
         Returned (w\<lparr>trace := trace w @ pre,
                    timers := timers w @
                      [\<lparr>tid = nextTimer w, delay = 200, callback = Cleanup midi (osc v) (noteGain v)\<rparr>],
                    nextTimer := Suc (nextTimer w)\<rparr>) \<or>
       stopNote midi w =
         Returned (w\<lparr>trace := trace w @ pre,
                    activeNotes := AList.delete midi (activeNotes w),
                    activeNoteCount := activeNoteCount w - 1\<rparr>)))"
  unfolding stopNote_def Let_def and_then_case try_catch_case setTimeout_def
  by (auto simp del: perform.simps split: outcome.splits option.splits dest!: perform_Returned perform_Thrown)

lemma cleanup_shape:
  "cleanup midi oscNode gainNode w = Returned w \<or>
   (\<exists>v pre. map_of (activeNotes w) midi = Some v \<and> osc v = oscNode \<and>
      cleanup midi oscNode gainNode w =
         Returned (w\<lparr>trace := trace w @ pre,
                    activeNotes := AList.delete midi (activeNotes w),
                    activeNoteCount := activeNoteCount w - 1\<rparr>))"
  unfolding cleanup_def Let_def and_then_case try_catch_case
  by (auto simp del: perform.simps split: outcome.splits option.splits dest!: perform_Returned perform_Thrown)

lemma disconnectVoice_shape:
  "\<exists>pre. disconnectVoice oscNode gainNode w = Returned (w\<lparr>trace := trace w @ pre\<rparr>)"
  unfolding disconnectVoice_def try_catch_case
  by (auto simp del: perform.simps split: outcome.splits dest!: perform_Returned perform_Thrown)

lemma stopVoice_shape:
  "(\<exists>pre. stopVoice now entry w = Returned (w\<lparr>trace := trace w @ pre\<rparr>)) \<or>
   (\<exists>pre. stopVoice now entry w =
      Returned (w\<lparr>trace := trace w @ pre,
                 timers := timers w @
                   [\<lparr>tid = nextTimer w, delay = 150,
                     callback = DisconnectVoice (osc (snd entry)) (noteGain (snd entry))\<rparr>],
                 nextTimer := Suc (nextTimer w)\<rparr>))"
  unfolding stopVoice_def Let_def and_then_case try_catch_case setTimeout_def
  by (auto simp del: perform.simps split: outcome.splits dest!: perform_Returned perform_Thrown)

lemma grown_Nil: "grown w [] [] = w"
  by (simp add: grown_def)

lemma grown_grown: "grown (grown w p1 t1) p2 t2 = grown w (p1 @ p2) (t1 @ t2)"
  by (simp add: grown_def add.assoc)

lemma disconnects_from_Nil: "disconnects_from n []"
  by (simp add: disconnects_from_def)

lemma disconnects_from_append:
  "disconnects_from n t1 \<Longrightarrow> disconnects_from (n + length t1) t2 \<Longrightarrow> disconnects_from n (t1 @ t2)"
proof -
  assume a: "disconnects_from n t1" and b: "disconnects_from (n + length t1) t2"
  have "[n..<n + length t1 + length t2] = [n..<n + length t1] @ [n + length t1..<n + length t1 + length t2]"
    by (rule upt_add_eq_append) simp
  then have "map tid (t1 @ t2) = [n..<n + length (t1 @ t2)]"
    using a b by (simp add: disconnects_from_def add.assoc)
  moreover have "\<forall>t \<in> set (t1 @ t2). is_disconnect (callback t)"
    using a b by (auto simp: disconnects_from_def)
  ultimately show ?thesis by (simp add: disconnects_from_def)
qed

lemma nextTimer_grown: "nextTimer (grown w pre ts) = nextTimer w + length ts"
  by (simp add: grown_def)

lemma stopVoice_grown:
  "\<exists>pre ts. stopVoice now entry w = Returned (grown w pre ts) \<and> disconnects_from (nextTimer w) ts"
  using stopVoice_shape[of now entry w]
proof (elim disjE exE)
  fix pre
  assume "stopVoice now entry w = Returned (w\<lparr>trace := trace w @ pre\<rparr>)"
  then have "stopVoice now entry w = Returned (grown w pre []) \<and> disconnects_from (nextTimer w) []"
    by (simp add: grown_def disconnects_from_def)
  then show ?thesis by (intro exI)
next
  fix pre
  let ?t = "\<lparr>tid = nextTimer w, delay = 150,
             callback = DisconnectVoice (osc (snd entry)) (noteGain (snd entry))\<rparr>"
  assume "stopVoice now entry w =
      Returned (w\<lparr>trace := trace w @ pre, timers := timers w @ [?t],
                 nextTimer := Suc (nextTimer w)\<rparr>)"
  then have "stopVoice now entry w = Returned (grown w pre [?t]) \<and> disconnects_from (nextTimer w) [?t]"
    by (simp add: grown_def disconnects_from_def)
  then show ?thesis by (intro exI)
qed

lemma stopVoices_grown:
  "\<exists>pre ts. stopVoices now es w = Returned (grown w pre ts) \<and> disconnects_from (nextTimer w) ts"
proof (induction es arbitrary: w)
  case Nil
  have "stopVoices now [] w = Returned (grown w [] []) \<and> disconnects_from (nextTimer w) []"
    by (simp add: grown_Nil disconnects_from_Nil)
  then show ?case by (intro exI)
next
  case (Cons e es)
  from stopVoice_grown[of now e w] obtain pre1 ts1 where
    s1: "stopVoice now e w = Returned (grown w pre1 ts1)" and d1: "disconnects_from (nextTimer w) ts1"
    by blast
  from Cons.IH[of "grown w pre1 ts1"] obtain pre2 ts2 where
    s2: "stopVoices now es (grown w pre1 ts1) = Returned (grown (grown w pre1 ts1) pre2 ts2)"
    and d2: "disconnects_from (nextTimer (grown w pre1 ts1)) ts2"
    by blast
  have "stopVoices now (e # es) w = Returned (grown w (pre1 @ pre2) (ts1 @ ts2))"
    using s1 s2 by (simp add: grown_grown)
  moreover have "disconnects_from (nextTimer w) (ts1 @ ts2)"
    using d1 d2 by (simp add: disconnects_from_append nextTimer_grown)
  ultimately show ?case by blast
qed

lemma stopAllNotes_shape:
  "stopAllNotes w = Returned w \<or>
   (\<exists>pre ts. isInitialized w \<and>
      stopAllNotes w = Returned ((grown w pre ts)\<lparr>activeNotes := [], activeNoteCount := 0\<rparr>) \<and>
      disconnects_from (nextTimer w) ts)"
proof (cases "isInitialized w")
  case False
  then show ?thesis by (simp add: stopAllNotes_def)
next
  case True
  from stopVoices_grown[of "currentTime w" "activeNotes w" w]
  obtain pre ts where
    s: "stopVoices (currentTime w) (activeNotes w) w = Returned (grown w pre ts)"
    and d: "disconnects_from (nextTimer w) ts"
    by blast
  have "stopAllNotes w = Returned ((grown w pre ts)\<lparr>activeNotes := [], activeNoteCount := 0\<rparr>)"
    using True s by (simp add: stopAllNotes_def Let_def)
  with True d show ?thesis by blast
qed

lemma fold_clearTimeout:
  "fold clearTimeout ids w = w\<lparr>timers := filter (\<lambda>t. tid t \<notin> set ids) (timers w)\<rparr>"
proof (induction ids arbitrary: w)
  case Nil
  show ?case by simp
next
  case (Cons i ids)
  have "fold clearTimeout (i # ids) w = fold clearTimeout ids (clearTimeout i w)"
    by simp
  also have "\<dots> = (clearTimeout i w)\<lparr>timers :=
       filter (\<lambda>t. tid t \<notin> set ids) (timers (clearTimeout i w))\<rparr>"
    by (rule Cons.IH)
  also have "\<dots> = w\<lparr>timers := filter (\<lambda>t. tid t \<notin> set (i # ids)) (timers w)\<rparr>"
    by (simp add: clearTimeout_def conj_commute)
  finally show ?case .
qed

lemma scheduleEvents_shape:
  "scheduleEvents es idx w =
     w\<lparr>timers := timers w @
          map (\<lambda>k. \<lparr>tid = nextTimer w + k, delay = timestamp (es ! k),
                    callback = PlaybackEvent (es ! k) (idx + k)\<rparr>) [0..<length es],
       nextTimer := nextTimer w + length es,
       playbackTimeouts := playbackTimeouts w @ map (\<lambda>k. nextTimer w + k) [0..<length es]\<rparr>"
proof (induction es arbitrary: idx w)
  case Nil
  show ?case by simp
next
  case (Cons e es)
  show ?case
    by (simp add: Cons.IH setTimeout_def map_upt_Suc del: upt_Suc)
qed

lemma init_shape:
  "init w = Returned w \<or>
   (\<exists>pre. init w = Thrown (w\<lparr>trace := trace w @ pre\<rparr>)) \<or>
   (\<exists>pre. init w = Thrown (w\<lparr>masterGain := Some (nextNode w), nextNode := Suc (nextNode w),
                              trace := trace w @ pre\<rparr>)) \<or>
   (\<exists>pre. init w = Returned (w\<lparr>masterGain := Some (nextNode w), nextNode := Suc (nextNode w),
                              trace := trace w @ pre, isInitialized := True\<rparr>))"
  unfolding init_def and_then_case
  by (auto simp del: perform.simps split: outcome.splits dest!: perform_Returned perform_Thrown)

subsection \<open>Association lists\<close>

lemma in_set_update:
  "e \<in> set (AList.update k v al) \<Longrightarrow> e = (k, v) \<or> e \<in> set al"
  by (induction al) (auto split: if_splits)

lemma set_delete_subset: "set (AList.delete k al) \<subseteq> set al"
  by (auto simp: AList.delete_eq)

lemma length_update_new:
  "map_of al k = None \<Longrightarrow> length (AList.update k v al) = Suc (length al)"
  by (induction al) (auto split: if_splits)

lemma length_delete_present:
  "distinct (map fst al) \<Longrightarrow> map_of al k = Some v \<Longrightarrow> Suc (length (AList.delete k al)) = length al"
proof (induction al)
  case Nil
  then show ?case by simp
next
  case (Cons a al)
  show ?case
  proof (cases "fst a = k")
    case True
    with Cons.prems have "k \<notin> fst ` set al" by auto
    then have "AList.delete k al = al" by simp
    with True show ?thesis by (cases a) simp
  next
    case False
    with Cons show ?thesis by (cases a) (auto split: if_splits)
  qed
qed

subsection \<open>The voice map stays well formed\<close>

lemma voices_ok_grown: "voices_ok (grown w pre ts) = voices_ok w"
  by (simp add: voices_ok_def grown_def)

lemma voices_ok_trace: "voices_ok (w\<lparr>trace := tr\<rparr>) = voices_ok w"
  by (simp add: voices_ok_def)

lemma voices_ok_delete:
  assumes "voices_ok w" and "map_of (activeNotes w) midi = Some v"
  shows "voices_ok (w\<lparr>trace := tr, activeNotes := AList.delete midi (activeNotes w),
                      activeNoteCount := activeNoteCount w - 1\<rparr>)"
proof -
  from assms have "Suc (length (AList.delete midi (activeNotes w))) = length (activeNotes w)"
    by (intro length_delete_present) (auto simp: voices_ok_def)
  then have "int (length (activeNotes w)) - 1 = int (length (AList.delete midi (activeNotes w)))"
    by linarith
  moreover from assms have "isInitialized w"
    by (auto simp: voices_ok_def)
  ultimately show ?thesis
    using assms set_delete_subset[of midi "activeNotes w"]
    by (auto simp: voices_ok_def distinct_delete)
qed

lemma voices_ok_playNote: "voices_ok w \<Longrightarrow> voices_ok (settle (playNote midi vel w))"
  using playNote_shape[of midi vel w]
  by (elim disjE exE conjE) (fastforce simp: voices_ok_def distinct_update length_update_new dest!: in_set_update)+

lemma voices_ok_stopNote: "voices_ok w \<Longrightarrow> voices_ok (settle (stopNote midi w))"
  using stopNote_shape[of midi w]
  by (elim disjE exE conjE) (auto simp: voices_ok_delete, auto simp: voices_ok_def)

lemma voices_ok_cleanup: "voices_ok w \<Longrightarrow> voices_ok (settle (cleanup midi oscNode gainNode w))"
  using cleanup_shape[of midi oscNode gainNode w]
  by (elim disjE exE conjE) (auto simp: voices_ok_delete)

lemma voices_ok_disconnectVoice: "voices_ok w \<Longrightarrow> voices_ok (settle (disconnectVoice oscNode gainNode w))"
  using disconnectVoice_shape[of oscNode gainNode w]
  by (auto simp: voices_ok_trace)

lemma voices_ok_stopAllNotes: "voices_ok w \<Longrightarrow> voices_ok (settle (stopAllNotes w))"
  using stopAllNotes_shape[of w]
  by (elim disjE exE conjE) (simp_all add: voices_ok_def grown_def)

lemma voices_ok_init: "voices_ok w \<Longrightarrow> voices_ok (settle (init w))"
  using init_shape[of w]
  by (elim disjE exE) (fastforce simp: voices_ok_def)+

subsection \<open>The timer queue stays well formed\<close>

lemma cleanup_known_mono: "cleanup_known n cb \<Longrightarrow> n \<le> m \<Longrightarrow> cleanup_known m cb"
  by (cases cb) auto

lemma is_disconnect_simps:
  "is_disconnect cb \<Longrightarrow> \<not> is_playback cb" "is_disconnect cb \<Longrightarrow> cleanup_known n cb"
  by (cases cb; simp)+

lemma timers_ok_add:
  assumes ok: "timers_ok w"
    and ts: "timers w' = timers w @ ts" "nextTimer w' = nextTimer w + length ts"
    and frame: "playbackTimeouts w' = playbackTimeouts w" "nextNode w \<le> nextNode w'"
       "isPlaying w' = isPlaying w"
    and ids: "map tid ts = [nextTimer w..<nextTimer w + length ts]"
    and new: "\<forall>t \<in> set ts. \<not> is_playback (callback t) \<and> cleanup_known (nextNode w') (callback t)"
  shows "timers_ok w'"
proof -
  have new_ids: "tid t \<in> {nextTimer w..<nextTimer w + length ts}" if "t \<in> set ts" for t
  proof -
    from that have "tid t \<in> set (map tid ts)" by simp
    then show ?thesis unfolding ids by simp
  qed
  have old_ids: "tid t < nextTimer w" if "t \<in> set (timers w)" for t
    using ok that by (simp add: timers_ok_def)
  have "distinct (map tid ts)" unfolding ids by simp
  moreover have "set (map tid (timers w)) \<inter> set (map tid ts) = {}"
    using new_ids old_ids by fastforce
  ultimately have d: "distinct (map tid (timers w'))"
    using ok by (simp add: ts timers_ok_def)
  have b: "\<forall>t \<in> set (timers w'). tid t < nextTimer w'"
    using new_ids old_ids by (fastforce simp: ts)
  have p: "\<forall>i \<in> set (playbackTimeouts w'). i < nextTimer w'"
    using ok by (fastforce simp: ts frame timers_ok_def)
  have c: "\<forall>t \<in> set (timers w'). cleanup_known (nextNode w') (callback t)"
    using ok new frame(2) by (auto simp: ts timers_ok_def intro: cleanup_known_mono)
  have "tid t \<notin> set (playbackTimeouts w)" if "t \<in> set ts" for t
    using new_ids[OF that] ok by (fastforce simp: timers_ok_def)
  then have q: "\<forall>t \<in> set (timers w'). is_playback (callback t) = (tid t \<in> set (playbackTimeouts w'))"
    using ok new by (auto simp: ts frame timers_ok_def)
  have r: "\<not> isPlaying w' \<longrightarrow> (\<forall>t \<in> set (timers w'). \<not> is_playback (callback t))"
    using ok new by (auto simp: ts frame timers_ok_def)
  from d b p c q r show ?thesis by (simp add: timers_ok_def)
qed

lemma timers_ok_frame:
  assumes "timers_ok w" "timers w' = timers w" "nextTimer w' = nextTimer w"
    "playbackTimeouts w' = playbackTimeouts w" "nextNode w \<le> nextNode w'" "isPlaying w' = isPlaying w"
  shows "timers_ok w'"
  using timers_ok_add[of w w' "[]"] assms by simp

lemma timers_ok_filter:
  assumes "timers_ok w" "timers w' = filter P (timers w)" "nextTimer w' = nextTimer w"
    "playbackTimeouts w' = playbackTimeouts w" "nextNode w \<le> nextNode w'" "isPlaying w' = isPlaying w"
  shows "timers_ok w'"
  using assms by (auto simp: timers_ok_def distinct_map_filter intro: cleanup_known_mono)

lemma timers_ok_grown:
  "timers_ok w \<Longrightarrow> disconnects_from (nextTimer w) ts \<Longrightarrow> timers_ok (grown w pre ts)"
  by (rule timers_ok_add[of w _ ts])
     (auto simp: grown_def disconnects_from_def is_disconnect_simps)

lemma timers_ok_playNote: "timers_ok w \<Longrightarrow> timers_ok (settle (playNote midi vel w))"
  using playNote_shape[of midi vel w]
  by (elim disjE exE conjE) (auto intro: timers_ok_frame[of w])

lemma timers_ok_stopNote:
  assumes "timers_ok w" "voices_ok w"
  shows "timers_ok (settle (stopNote midi w))"
  using stopNote_shape[of midi w]
proof (elim disjE exE conjE)
  assume "stopNote midi w = Returned w"
  with assms show ?thesis by simp
next
  fix v :: voice and pre
  let ?t = "\<lparr>tid = nextTimer w, delay = 200, callback = Cleanup midi (osc v) (noteGain v)\<rparr>"
  assume v: "map_of (activeNotes w) midi = Some v"
    and s: "stopNote midi w =
       Returned (w\<lparr>trace := trace w @ pre, timers := timers w @ [?t], nextTimer := Suc (nextTimer w)\<rparr>)"
  from v have "(midi, v) \<in> set (activeNotes w)" by (rule map_of_SomeD)
  with assms(2) have "osc v < nextNode w \<and> noteGain v = Suc (osc v)"
    by (fastforce simp: voices_ok_def)
  then show ?thesis
    unfolding s by (intro timers_ok_add[OF assms(1), of _ "[?t]"]) simp_all
next
  fix v pre
  assume "stopNote midi w =
       Returned (w\<lparr>trace := trace w @ pre, activeNotes := AList.delete midi (activeNotes w),
                   activeNoteCount := activeNoteCount w - 1\<rparr>)"
  then show ?thesis
    by (auto intro: timers_ok_frame[OF assms(1)])
qed

lemma timers_ok_cleanup: "timers_ok w \<Longrightarrow> timers_ok (settle (cleanup midi oscNode gainNode w))"
  using cleanup_shape[of midi oscNode gainNode w]
  by (elim disjE exE conjE) (auto intro: timers_ok_frame[of w])

lemma timers_ok_disconnectVoice:
  "timers_ok w \<Longrightarrow> timers_ok (settle (disconnectVoice oscNode gainNode w))"
  using disconnectVoice_shape[of oscNode gainNode w]
  by (elim disjE exE conjE) (auto intro: timers_ok_frame[of w])

lemma timers_ok_stopAllNotes: "timers_ok w \<Longrightarrow> timers_ok (settle (stopAllNotes w))"
  using stopAllNotes_shape[of w]
proof (elim disjE exE conjE)
  assume "timers_ok w" "stopAllNotes w = Returned w"
  then show ?thesis by simp
next
  fix pre ts
  assume ok: "timers_ok w" and d: "disconnects_from (nextTimer w) ts"
    and s: "stopAllNotes w = Returned ((grown w pre ts)\<lparr>activeNotes := [], activeNoteCount := 0\<rparr>)"
  from timers_ok_grown[OF ok d, of pre] show ?thesis
    unfolding s by (auto intro: timers_ok_frame[of "grown w pre ts"])
qed

lemma timers_ok_init: "timers_ok w \<Longrightarrow> timers_ok (settle (init w))"
  using init_shape[of w]
  by (elim disjE exE conjE) (auto intro: timers_ok_frame[of w])

subsection \<open>Every step keeps the state well formed\<close>

lemma playNote_returns: "\<exists>w'. playNote midi vel w = Returned w'"
  using playNote_shape[of midi vel w] by blast

lemma stopNote_returns: "\<exists>w'. stopNote midi w = Returned w'"
  using stopNote_shape[of midi w] by blast

lemma stopAllNotes_returns: "\<exists>w'. stopAllNotes w = Returned w'"
  using stopAllNotes_shape[of w] by blast

lemma well_formed_frame:
  assumes "well_formed w"
    and eqs: "activeNotes w' = activeNotes w" "activeNoteCount w' = activeNoteCount w"
      "isInitialized w' = isInitialized w" "nextNode w' = nextNode w" "timers w' = timers w"
      "nextTimer w' = nextTimer w" "playbackTimeouts w' = playbackTimeouts w"
      "isPlaying w' = isPlaying w"
  shows "well_formed w'"
proof -
  have "voices_ok w' = voices_ok w" by (simp add: voices_ok_def eqs)
  moreover have "timers_ok w' = timers_ok w" by (simp add: timers_ok_def eqs)
  ultimately show ?thesis using assms(1) by (simp add: well_formed_def)
qed

lemma well_formed_playNote: "well_formed w \<Longrightarrow> well_formed (settle (playNote midi vel w))"
  by (simp add: well_formed_def voices_ok_playNote timers_ok_playNote)

lemma well_formed_stopNote: "well_formed w \<Longrightarrow> well_formed (settle (stopNote midi w))"
  by (simp add: well_formed_def voices_ok_stopNote timers_ok_stopNote)

lemma well_formed_cleanup: "well_formed w \<Longrightarrow> well_formed (settle (cleanup midi oscNode gainNode w))"
  by (simp add: well_formed_def voices_ok_cleanup timers_ok_cleanup)

lemma well_formed_disconnectVoice: "well_formed w \<Longrightarrow> well_formed (settle (disconnectVoice oscNode gainNode w))"
  by (simp add: well_formed_def voices_ok_disconnectVoice timers_ok_disconnectVoice)

lemma well_formed_stopAllNotes: "well_formed w \<Longrightarrow> well_formed (settle (stopAllNotes w))"
  by (simp add: well_formed_def voices_ok_stopAllNotes timers_ok_stopAllNotes)

lemma well_formed_init: "well_formed w \<Longrightarrow> well_formed (settle (init w))"
  by (simp add: well_formed_def voices_ok_init timers_ok_init)

lemma playbackTimeouts_stopAllNotes:
  "playbackTimeouts (settle (stopAllNotes w)) = playbackTimeouts w"
  using stopAllNotes_shape[of w] by (auto simp: grown_def)

lemma timers_ok_cancel:
  "timers_ok w \<Longrightarrow>
   timers_ok (w\<lparr>timers := filter (\<lambda>t. tid t \<notin> set (playbackTimeouts w)) (timers w),
                playbackTimeouts := []\<rparr>)"
  by (auto simp: timers_ok_def distinct_map_filter)

lemma timers_ok_isPlaying:
  "timers_ok w \<Longrightarrow> playbackTimeouts w = [] \<Longrightarrow> timers_ok (w\<lparr>isPlaying := b\<rparr>)"
  by (auto simp: timers_ok_def)

lemma stopPlayback_eq:
  "stopPlayback w =
     (if \<not> isPlaying w then Returned w
      else Returned
        ((settle (stopAllNotes
           (w\<lparr>timers := filter (\<lambda>t. tid t \<notin> set (playbackTimeouts w)) (timers w),
              playbackTimeouts := []\<rparr>)))\<lparr>isPlaying := False\<rparr>))"
proof -
  let ?w1 = "w\<lparr>timers := filter (\<lambda>t. tid t \<notin> set (playbackTimeouts w)) (timers w),
              playbackTimeouts := []\<rparr>"
  obtain w2 where "stopAllNotes ?w1 = Returned w2"
    using stopAllNotes_returns by blast
  then show ?thesis
    by (simp add: stopPlayback_def Let_def fold_clearTimeout)
qed

lemma well_formed_stopPlayback: "well_formed w \<Longrightarrow> well_formed (settle (stopPlayback w))"
proof (cases "isPlaying w")
  case False
  assume "well_formed w"
  with False show ?thesis by (simp add: stopPlayback_eq)
next
  case True
  assume ok: "well_formed w"
  let ?w1 = "w\<lparr>timers := filter (\<lambda>t. tid t \<notin> set (playbackTimeouts w)) (timers w),
              playbackTimeouts := []\<rparr>"
  let ?w2 = "settle (stopAllNotes ?w1)"
  have "voices_ok ?w1 = voices_ok w" by (simp add: voices_ok_def)
  with ok have "well_formed ?w1"
    by (simp add: well_formed_def timers_ok_cancel)
  then have w2: "well_formed ?w2" by (rule well_formed_stopAllNotes)
  have "playbackTimeouts ?w2 = []"
    by (simp add: playbackTimeouts_stopAllNotes)
  moreover have "voices_ok (?w2\<lparr>isPlaying := False\<rparr>) = voices_ok ?w2"
    by (simp add: voices_ok_def)
  ultimately have "well_formed (?w2\<lparr>isPlaying := False\<rparr>)"
    using w2 by (simp add: well_formed_def timers_ok_isPlaying)
  with True show ?thesis by (simp add: stopPlayback_eq)
qed

lemma playRecording_eq:
  "playRecording w =
     (if isPlaying w \<or> recordedEvents w = [] then w
      else w\<lparr>isPlaying := True,
             timers := timers w @
               map (\<lambda>k. \<lparr>tid = nextTimer w + k, delay = timestamp (recordedEvents w ! k),
                         callback = PlaybackEvent (recordedEvents w ! k) k\<rparr>)
                   [0..<length (recordedEvents w)],
             nextTimer := nextTimer w + length (recordedEvents w),
             playbackTimeouts := map (\<lambda>k. nextTimer w + k) [0..<length (recordedEvents w)]\<rparr>)"
  by (simp add: playRecording_def hasRecording_def scheduleEvents_shape)

lemma timers_ok_schedule:
  assumes ok: "timers_ok w" and idle: "\<not> isPlaying w"
  shows "timers_ok (w\<lparr>isPlaying := True,
             timers := timers w @
               map (\<lambda>k. \<lparr>tid = nextTimer w + k, delay = timestamp (es ! k),
                         callback = PlaybackEvent (es ! k) k\<rparr>) [0..<length es],
             nextTimer := nextTimer w + length es,
             playbackTimeouts := map (\<lambda>k. nextTimer w + k) [0..<length es]\<rparr>)"
    (is "timers_ok ?w'")
proof -
  let ?n = "nextTimer w"
  from ok idle have old1: "\<forall>t \<in> set (timers w). \<not> is_playback (callback t)"
    by (auto simp: timers_ok_def)
  from ok have old2: "\<forall>t \<in> set (timers w). tid t < ?n"
    by (auto simp: timers_ok_def)
  have "distinct (map (\<lambda>k. ?n + k) [0..<length es])"
    by (simp add: distinct_map inj_on_def)
  moreover have "set (map tid (timers w)) \<inter> set (map (\<lambda>k. ?n + k) [0..<length es]) = {}"
    using old2 by fastforce
  moreover from ok have "distinct (map tid (timers w))"
    by (auto simp: timers_ok_def)
  ultimately have d: "distinct (map tid (timers ?w'))"
    by (simp add: o_def)
  have b: "\<forall>t \<in> set (timers ?w'). tid t < nextTimer ?w'"
    using old2 by fastforce
  have p: "\<forall>i \<in> set (playbackTimeouts ?w'). i < nextTimer ?w'"
    by auto
  from ok have "\<forall>t \<in> set (timers w). cleanup_known (nextNode w) (callback t)"
    by (auto simp: timers_ok_def)
  then have c: "\<forall>t \<in> set (timers ?w'). cleanup_known (nextNode ?w') (callback t)"
    by auto
  have q: "\<forall>t \<in> set (timers ?w'). is_playback (callback t) = (tid t \<in> set (playbackTimeouts ?w'))"
    using old1 old2 by fastforce
  from d b p c q show ?thesis
    unfolding timers_ok_def by (intro conjI) simp_all
qed

lemma well_formed_playRecording: "well_formed w \<Longrightarrow> well_formed (playRecording w)"
proof (cases "isPlaying w \<or> recordedEvents w = []")
  case True
  assume "well_formed w"
  with True show ?thesis by (simp add: playRecording_eq)
next
  case False
  assume ok: "well_formed w"
  then have "timers_ok (playRecording w)"
    using False timers_ok_schedule[of w "recordedEvents w"] by (simp add: playRecording_eq well_formed_def)
  moreover have "voices_ok (playRecording w) = voices_ok w"
    using False by (simp add: playRecording_eq voices_ok_def)
  ultimately show ?thesis using ok by (simp add: well_formed_def)
qed

lemma well_formed_setTimeout:
  assumes ok: "well_formed w" and cb: "\<not> is_playback cb" "cleanup_known (nextNode w) cb"
  shows "well_formed (snd (setTimeout cb ms w))"
proof -
  let ?t = "\<lparr>tid = nextTimer w, delay = ms, callback = cb\<rparr>"
  let ?w' = "w\<lparr>timers := timers w @ [?t], nextTimer := Suc (nextTimer w)\<rparr>"
  from ok have "timers_ok w" by (simp add: well_formed_def)
  then have "timers_ok ?w'"
    by (rule timers_ok_add[of w _ "[?t]"]) (simp_all add: cb)
  moreover have "voices_ok ?w' = voices_ok w"
    by (simp add: voices_ok_def)
  ultimately show ?thesis using ok by (simp add: well_formed_def setTimeout_def)
qed

lemma playbackEvent_eq:
  "playbackEvent event index w =
     Returned
       (let w1 = (if ev_type event = ''noteOn''
                  then settle (playNote (ev_note event) (velocity event) w)
                  else if ev_type event = ''noteOff'' then settle (stopNote (ev_note event) w)
                  else w)
        in if int index = int (length (recordedEvents w1)) - 1
           then snd (setTimeout AutoStop 500 w1) else w1)"
proof -
  obtain a where a: "playNote (ev_note event) (velocity event) w = Returned a"
    using playNote_returns by blast
  obtain b where b: "stopNote (ev_note event) w = Returned b"
    using stopNote_returns by blast
  show ?thesis
    by (simp add: playbackEvent_def a b Let_def)
qed

lemma well_formed_playbackEvent: "well_formed w \<Longrightarrow> well_formed (settle (playbackEvent event index w))"
  by (simp add: playbackEvent_eq Let_def well_formed_playNote well_formed_stopNote well_formed_setTimeout)

lemma well_formed_clearTimeout: "well_formed w \<Longrightarrow> well_formed (clearTimeout i w)"
proof -
  assume ok: "well_formed w"
  then have "timers_ok w" by (simp add: well_formed_def)
  then have "timers_ok (clearTimeout i w)"
    by (rule timers_ok_filter[of w _ "\<lambda>t. tid t \<noteq> i"]) (simp_all add: clearTimeout_def)
  moreover have "voices_ok (clearTimeout i w) = voices_ok w"
    by (simp add: voices_ok_def clearTimeout_def)
  ultimately show ?thesis using ok by (simp add: well_formed_def)
qed

lemma well_formed_runCallback:
  "well_formed w \<Longrightarrow> cleanup_known n cb \<Longrightarrow> well_formed (settle (runCallback cb w))"
  by (cases cb)
     (simp_all add: runCallback_def well_formed_cleanup well_formed_disconnectVoice
        well_formed_playbackEvent well_formed_stopPlayback)

lemma well_formed_fire: "well_formed w \<Longrightarrow> well_formed (fire i w)"
proof (cases "find (\<lambda>t. tid t = i) (timers w)")
  case None
  assume "well_formed w"
  with None show ?thesis by (simp add: fire_def)
next
  case (Some t)
  assume ok: "well_formed w"
  from Some have "t \<in> set (timers w)"
    by (auto simp: find_Some_iff)
  with ok have "cleanup_known (nextNode w) (callback t)"
    by (auto simp: well_formed_def timers_ok_def)
  with ok have "well_formed (settle (runCallback (callback t) (clearTimeout i w)))"
    by (intro well_formed_runCallback[of _ "nextNode w"] well_formed_clearTimeout)
  with Some show ?thesis by (simp add: fire_def)
qed

lemma well_formed_recorder:
  assumes "well_formed w"
  shows "well_formed (startRecording w)" "well_formed (stopRecording w)" "well_formed (recordEvent e w)"
    "well_formed (clearRecording w)" "well_formed (fst (loadRecording f w))"
proof -
  show "well_formed (startRecording w)"
    by (rule well_formed_frame[OF assms]) (simp_all add: startRecording_def)
  show "well_formed (stopRecording w)"
    by (rule well_formed_frame[OF assms]) (simp_all add: stopRecording_def)
  show "well_formed (recordEvent e w)"
    by (rule well_formed_frame[OF assms]) (simp_all add: recordEvent_def Let_def)
  show "well_formed (clearRecording w)"
    by (rule well_formed_frame[OF assms]) (simp_all add: clearRecording_def)
  show "well_formed (fst (loadRecording f w))"
    by (rule well_formed_frame[OF assms]) (simp_all add: loadRecording_def split: file_content.splits)
qed

lemma well_formed_step: "well_formed w \<Longrightarrow> well_formed (step w a)"
proof (cases a)
  case (Elapse s m d)
  assume "well_formed w"
  then show ?thesis by (rule well_formed_frame) (simp_all add: Elapse)
next
  case (HostFaults cs)
  assume "well_formed w"
  then show ?thesis by (rule well_formed_frame) (simp_all add: HostFaults)
qed (simp_all add: well_formed_init well_formed_playNote well_formed_stopNote well_formed_stopAllNotes well_formed_recorder well_formed_playRecording
       well_formed_stopPlayback well_formed_fire)

lemma well_formed_run: "well_formed w \<Longrightarrow> well_formed (run w as)"
  unfolding run_def by (induction as arbitrary: w) (simp_all add: well_formed_step)

lemma well_formed_newWorld: "well_formed newWorld"
  by (auto simp: well_formed_def voices_ok_def timers_ok_def newWorld_def)

lemma update_absent: "map_of al k = None \<Longrightarrow> AList.update k v al = al @ [(k, v)]"
  by (induction al) (auto split: if_splits)

lemma filter_key_absent: "map_of al k = None \<Longrightarrow> filter (\<lambda>e. fst e = k) al = []"
  by (induction al) (auto split: if_splits)

lemma filter_key_present:
  "distinct (map fst al) \<Longrightarrow> map_of al k = Some v \<Longrightarrow> filter (\<lambda>e. fst e = k) al = [(k, v)]"
proof (induction al)
  case Nil
  then show ?case by simp
next
  case (Cons a al)
  show ?case
  proof (cases "fst a = k")
    case True
    with Cons.prems have "k \<notin> fst ` set al" and "a = (k, v)" by (cases a; auto)+
    then have "filter (\<lambda>e. fst e = k) al = []"
      by (auto simp: filter_empty_conv)
    with \<open>a = (k, v)\<close> show ?thesis by simp
  next
    case False
    with Cons show ?thesis by (cases a) (auto split: if_splits)
  qed
qed

lemma length_filter_key_le:
  "distinct (map fst al) \<Longrightarrow> length (filter (\<lambda>e. fst e = k) al) \<le> 1"
  by (cases "map_of al k") (simp_all add: filter_key_absent filter_key_present)

lemma playNote_fresh:
  assumes "isInitialized w" "map_of (activeNotes w) n = None" "faulty w = []"
  shows "\<exists>w1. playNote n v w = Returned w1 \<and>
     activeNotes w1 = activeNotes w @
        [(n, \<lparr>osc = nextNode w, noteGain = Suc (nextNode w), startTime = currentTime w\<rparr>)]"
  using assms
  by (simp add: playNote_def Let_def perform_ok update_absent del: perform.simps)

lemma ready_world:
  "run newWorld [Init] =
     newWorld\<lparr>isInitialized := True, masterGain := Some 0, nextNode := 1,
              trace := [NewAudioContext, CreateGain 0, SetGainValue 0 1, ConnectDestination 0]\<rparr>"
  by (simp add: run_def init_def newWorld_def)

lemma isArray_truthy: "isArray v \<Longrightarrow> truthy v"
  by (cases v) simp_all

lemma isArray_elements: "isArray v \<Longrightarrow> v = JArray (elements v)"
  by (cases v) simp_all

lemma playback_session:
  "recordedEvents
     (run newWorld
        [StartRecording,
         RecordEvent \<lparr>ev_type = ''noteOn'', ev_note = 60, velocity = 1/2, timestamp = 0\<rparr>,
         RecordEvent \<lparr>ev_type = ''noteOff'', ev_note = 60, velocity = 0, timestamp = 500\<rparr>,
         StopRecording]) =
     [\<lparr>ev_type = ''noteOn'', ev_note = 60, velocity = 1/2, timestamp = 0\<rparr>,
      \<lparr>ev_type = ''noteOff'', ev_note = 60, velocity = 0, timestamp = 500\<rparr>]"
  by (simp add: run_def newWorld_def startRecording_def recordEvent_def stopRecording_def Let_def)

subsection \<open>What a step can change\<close>

lemma advances_refl: "advances w w"
  by (simp add: advances_def)

lemma advances_trans: "advances w w' \<Longrightarrow> advances w' w'' \<Longrightarrow> advances w w''"
  unfolding advances_def
proof (intro conjI)
  assume a: "nextTimer w \<le> nextTimer w' \<and> nextNode w \<le> nextNode w' \<and>
     (\<forall>t \<in> set (timers w'). t \<in> set (timers w) \<or> nextTimer w \<le> tid t) \<and>
     (\<exists>tr. trace w' = trace w @ tr)"
    and b: "nextTimer w' \<le> nextTimer w'' \<and> nextNode w' \<le> nextNode w'' \<and>
     (\<forall>t \<in> set (timers w''). t \<in> set (timers w') \<or> nextTimer w' \<le> tid t) \<and>
     (\<exists>tr. trace w'' = trace w' @ tr)"
  from a b show "nextTimer w \<le> nextTimer w''" "nextNode w \<le> nextNode w''" by auto
  from a b show "\<forall>t \<in> set (timers w''). t \<in> set (timers w) \<or> nextTimer w \<le> tid t"
    by (meson le_trans)
  from a obtain t1 where "trace w' = trace w @ t1" by blast
  moreover from b obtain t2 where "trace w'' = trace w' @ t2" by blast
  ultimately have "trace w'' = trace w @ (t1 @ t2)" by simp
  then show "\<exists>tr. trace w'' = trace w @ tr" by blast
qed

lemma adds_no_playback_refl: "adds_no_playback w w"
  by (simp add: adds_no_playback_def)

lemma adds_no_playback_trans:
  "adds_no_playback w w' \<Longrightarrow> adds_no_playback w' w'' \<Longrightarrow> adds_no_playback w w''"
  by (auto simp: adds_no_playback_def)

lemma calm_refl: "calm w w"
  by (simp add: calm_def advances_refl adds_no_playback_refl)

lemma calm_trans: "calm w w' \<Longrightarrow> calm w' w'' \<Longrightarrow> calm w w''"
  by (auto simp: calm_def intro: advances_trans adds_no_playback_trans)

lemma calm_trace: "calm w (w\<lparr>trace := trace w @ pre\<rparr>)"
  by (simp add: calm_def advances_def adds_no_playback_def)

lemma calm_grown:
  assumes "disconnects_from (nextTimer w) ts"
  shows "calm w (grown w pre ts)"
proof -
  have ids: "nextTimer w \<le> tid t" if "t \<in> set ts" for t
  proof -
    from that have "tid t \<in> set (map tid ts)" by simp
    with assms show ?thesis by (simp add: disconnects_from_def)
  qed
  have np: "\<not> is_playback (callback t)" if "t \<in> set ts" for t
    using assms that by (simp add: disconnects_from_def is_disconnect_simps)
  show ?thesis
    using ids np by (auto simp: calm_def advances_def adds_no_playback_def grown_def)
qed

lemma calm_setTimeout: "\<not> is_playback cb \<Longrightarrow> calm w (snd (setTimeout cb ms w))"
  by (auto simp: calm_def advances_def adds_no_playback_def setTimeout_def)

lemma calm_clearTimeout: "calm w (clearTimeout i w)"
  by (auto simp: calm_def advances_def adds_no_playback_def clearTimeout_def)

lemma calm_init: "calm w (settle (init w))"
  using init_shape[of w]
  by (elim disjE exE) (auto simp: calm_def advances_def adds_no_playback_def)

lemma calm_playNote: "calm w (settle (playNote midi vel w))"
  using playNote_shape[of midi vel w]
  by (elim disjE exE conjE) (auto simp: calm_def advances_def adds_no_playback_def)

lemma calm_stopNote: "calm w (settle (stopNote midi w))"
  using stopNote_shape[of midi w]
  by (elim disjE exE conjE) (auto simp: calm_def advances_def adds_no_playback_def)

lemma calm_cleanup: "calm w (settle (cleanup midi oscNode gainNode w))"
  using cleanup_shape[of midi oscNode gainNode w]
  by (elim disjE exE conjE) (auto simp: calm_def advances_def adds_no_playback_def)

lemma calm_disconnectVoice: "calm w (settle (disconnectVoice oscNode gainNode w))"
  using disconnectVoice_shape[of oscNode gainNode w]
  by (elim disjE exE conjE) (auto simp: calm_trace)

lemma calm_stopAllNotes: "calm w (settle (stopAllNotes w))"
  using stopAllNotes_shape[of w]
proof (elim disjE exE conjE)
  assume "stopAllNotes w = Returned w"
  then show ?thesis by (simp add: calm_refl)
next
  fix pre ts
  assume d: "disconnects_from (nextTimer w) ts"
    and s: "stopAllNotes w = Returned ((grown w pre ts)\<lparr>activeNotes := [], activeNoteCount := 0\<rparr>)"
  have "calm (grown w pre ts) ((grown w pre ts)\<lparr>activeNotes := [], activeNoteCount := 0\<rparr>)"
    by (simp add: calm_def advances_def adds_no_playback_def)
  with calm_grown[OF d, of pre] show ?thesis
    unfolding s by (auto intro: calm_trans)
qed

lemma calm_stopPlayback: "calm w (settle (stopPlayback w))"
proof (cases "isPlaying w")
  case False
  then show ?thesis by (simp add: stopPlayback_eq calm_refl)
next
  case True
  let ?w1 = "w\<lparr>timers := filter (\<lambda>t. tid t \<notin> set (playbackTimeouts w)) (timers w),
              playbackTimeouts := []\<rparr>"
  let ?w2 = "settle (stopAllNotes ?w1)"
  have 1: "calm w ?w1"
    by (auto simp: calm_def advances_def adds_no_playback_def)
  have 2: "calm ?w1 ?w2" by (rule calm_stopAllNotes)
  have 3: "calm ?w2 (?w2\<lparr>isPlaying := False\<rparr>)"
    by (simp add: calm_def advances_def adds_no_playback_def)
  from 1 2 3 have "calm w (?w2\<lparr>isPlaying := False\<rparr>)"
    by (blast intro: calm_trans)
  with True show ?thesis by (simp add: stopPlayback_eq)
qed

lemma calm_playbackEvent: "calm w (settle (playbackEvent event index w))"
proof -
  let ?w1 = "if ev_type event = ''noteOn''
             then settle (playNote (ev_note event) (velocity event) w)
             else if ev_type event = ''noteOff'' then settle (stopNote (ev_note event) w)
             else w"
  have 1: "calm w ?w1"
    by (simp add: calm_playNote calm_stopNote calm_refl)
  have 2: "calm ?w1 (snd (setTimeout AutoStop 500 ?w1))"
    by (rule calm_setTimeout) simp
  from 1 2 have "calm w (snd (setTimeout AutoStop 500 ?w1))"
    by (rule calm_trans)
  with 1 show ?thesis
    by (simp add: playbackEvent_eq Let_def)
qed

lemma calm_deleteEntry: "calm w (settle (deleteEntry midi w))"
  by (simp add: deleteEntry_def calm_def advances_def adds_no_playback_def)

lemma calm_runCallback: "calm w (settle (runCallback cb w))"
  by (cases cb)
     (simp_all add: runCallback_def calm_cleanup calm_disconnectVoice calm_playbackEvent
        calm_stopPlayback calm_deleteEntry)

lemma calm_fire: "calm w (fire i w)"
proof (cases "find (\<lambda>t. tid t = i) (timers w)")
  case None
  then show ?thesis by (simp add: fire_def calm_refl)
next
  case (Some t)
  have "calm w (clearTimeout i w)" by (rule calm_clearTimeout)
  moreover have "calm (clearTimeout i w) (settle (runCallback (callback t) (clearTimeout i w)))"
    by (rule calm_runCallback)
  ultimately show ?thesis
    using Some by (auto simp: fire_def intro: calm_trans)
qed

lemma advances_step: "advances w (step w a)"
proof (cases a)
  case PlayRecording
  show ?thesis
    unfolding PlayRecording by (auto simp: playRecording_eq advances_def)
next
  case (LoadRecording f)
  show ?thesis
    unfolding LoadRecording
    by (cases f) (auto simp: loadRecording_def advances_def)
qed (insert calm_init[of w] calm_playNote[of w] calm_stopNote[of w] calm_stopAllNotes[of w]
       calm_stopPlayback[of w] calm_fire[of w],
     auto simp: calm_def advances_def startRecording_def stopRecording_def recordEvent_def
       clearRecording_def Let_def)

lemma adds_no_playback_step: "a \<noteq> PlayRecording \<Longrightarrow> adds_no_playback w (step w a)"
proof (cases a)
  case (LoadRecording f)
  show ?thesis
    unfolding LoadRecording
    by (cases f) (auto simp: loadRecording_def adds_no_playback_def)
qed (insert calm_init[of w] calm_playNote[of w] calm_stopNote[of w] calm_stopAllNotes[of w]
       calm_stopPlayback[of w] calm_fire[of w],
     auto simp: calm_def adds_no_playback_def startRecording_def stopRecording_def recordEvent_def
       clearRecording_def Let_def)

lemma same_log_step: "\<not> mutates_log a \<Longrightarrow> recordedEvents (step w a) = recordedEvents w"
  using calm_init[of w] calm_playNote[of w] calm_stopNote[of w] calm_stopAllNotes[of w]
       calm_stopPlayback[of w] calm_fire[of w]
  by (cases a) (auto simp: calm_def stopRecording_def playRecording_eq)

lemma advances_run: "advances w (run w as)"
  unfolding run_def
proof (induction as arbitrary: w)
  case Nil
  show ?case by (simp add: advances_refl)
next
  case (Cons a as)
  from advances_step[of w a] Cons.IH[of "step w a"] show ?case
    by (auto intro: advances_trans)
qed

lemma same_log_run:
  "\<forall>a \<in> set as. \<not> mutates_log a \<Longrightarrow> recordedEvents (run w as) = recordedEvents w"
  unfolding run_def
  by (induction as arbitrary: w) (simp_all add: same_log_step)

lemma adds_no_playback_run:
  "PlayRecording \<notin> set as \<Longrightarrow> adds_no_playback w (run w as)"
  unfolding run_def
proof (induction as arbitrary: w)
  case Nil
  show ?case by (simp add: adds_no_playback_refl)
next
  case (Cons a as)
  from Cons.prems have "a \<noteq> PlayRecording" and rest: "PlayRecording \<notin> set as" by auto
  then have "adds_no_playback w (step w a)"
    by (simp add: adds_no_playback_step)
  moreover from rest have "adds_no_playback (step w a) (foldl step (step w a) as)"
    by (rule Cons.IH)
  ultimately show ?case by (auto intro: adds_no_playback_trans)
qed

lemma two_voices_v1:
  "settle (playNote_v1 64 (1/2) (settle (playNote_v1 60 (1/2) (settle (init newWorld))))) =
   newWorld
     \<lparr>isInitialized := True, masterGain := Some 0, nextNode := 5,
      activeNotes := [(60, \<lparr>osc = 1, noteGain = 2, startTime = 0\<rparr>),
                      (64, \<lparr>osc = 3, noteGain = 4, startTime = 0\<rparr>)],
      trace :=
        [NewAudioContext, CreateGain 0, SetGainValue 0 1, ConnectDestination 0,
         CreateOscillator 1, SetOscType 1 ''triangle'', SetFrequencyValue 1 (midiToFrequency 60),
         CreateGain 2, SetGainValue 2 0, Connect 1 (Some 2), Connect 2 (Some 0),
         LinearRampToValueAtTime 2 (1/2) (1/100),
         ExponentialRampToValueAtTime 2 (7/20) (3/10), OscStart 1 0,
         CreateOscillator 3, SetOscType 3 ''triangle'', SetFrequencyValue 3 (midiToFrequency 64),
         CreateGain 4, SetGainValue 4 0, Connect 3 (Some 4), Connect 4 (Some 0),
         LinearRampToValueAtTime 4 (1/2) (1/100),
         ExponentialRampToValueAtTime 4 (7/20) (3/10), OscStart 3 0]\<rparr>"
  by (simp add: init_def newWorld_def playNote_v1_def Let_def)

lemma distinct_map_eq:
  "distinct (map f xs) \<Longrightarrow> x \<in> set xs \<Longrightarrow> y \<in> set xs \<Longrightarrow> f x = f y \<Longrightarrow> x = y"
  by (auto simp: distinct_map dest: inj_onD)

lemma find_fresh_timer:
  assumes ok: "well_formed w" and t: "t \<in> set (timers w)"
    and adv: "advances w w2" and f: "find (\<lambda>x. tid x = tid t) (timers w2) = Some t'"
  shows "t' = t"
proof -
  from f have 1: "t' \<in> set (timers w2)" and 2: "tid t' = tid t"
    by (auto simp: find_Some_iff)
  from ok t have 3: "tid t < nextTimer w" and d: "distinct (map tid (timers w))"
    by (auto simp: well_formed_def timers_ok_def)
  from adv 1 have "t' \<in> set (timers w) \<or> nextTimer w \<le> tid t'"
    by (auto simp: advances_def)
  with 2 3 have "t' \<in> set (timers w)" by auto
  with d t 2 show ?thesis by (auto dest: distinct_map_eq)
qed

lemma newer_voice_v2:
  "activeNotes (run newWorld [Init, PlayNote 60 (1/2), StopNote 60, StopNote 60, Fire 1,
        PlayNote 60 (1/2)]) = [(60, \<lparr>osc = 3, noteGain = 4, startTime = 0\<rparr>)] \<and>
   activeNotes (run newWorld [Init, PlayNote 60 (1/2), StopNote 60, StopNote 60, Fire 1,
        PlayNote 60 (1/2), Fire 2]) = [(60, \<lparr>osc = 3, noteGain = 4, startTime = 0\<rparr>)]"
  by (simp add: run_def init_def newWorld_def playNote_def stopNote_def setTimeout_def Let_def
        fire_def clearTimeout_def runCallback_def cleanup_def)

lemma five_event_playback:
  "run newWorld
     [Init,
      LoadRecording (JSONObject
        \<lparr>version = JString ''1.0'', date = JString ''d'', duration = JNumber 400,
         eventCount = JNumber 5,
         events = JArray
           [\<lparr>ev_type = ''noteOn'', ev_note = 60, velocity = 1/2, timestamp = 0\<rparr>,
            \<lparr>ev_type = ''noteOff'', ev_note = 60, velocity = 0, timestamp = 100\<rparr>,
            \<lparr>ev_type = ''noteOn'', ev_note = 62, velocity = 1/2, timestamp = 200\<rparr>,
            \<lparr>ev_type = ''noteOff'', ev_note = 62, velocity = 0, timestamp = 300\<rparr>,
            \<lparr>ev_type = ''noteOn'', ev_note = 64, velocity = 1/2, timestamp = 400\<rparr>]\<rparr>),
      PlayRecording] =
   newWorld
     \<lparr>isInitialized := True, masterGain := Some 0, nextNode := 1,
      trace := [NewAudioContext, CreateGain 0, SetGainValue 0 1, ConnectDestination 0],
      recordedEvents :=
           [\<lparr>ev_type = ''noteOn'', ev_note = 60, velocity = 1/2, timestamp = 0\<rparr>,
            \<lparr>ev_type = ''noteOff'', ev_note = 60, velocity = 0, timestamp = 100\<rparr>,
            \<lparr>ev_type = ''noteOn'', ev_note = 62, velocity = 1/2, timestamp = 200\<rparr>,
            \<lparr>ev_type = ''noteOff'', ev_note = 62, velocity = 0, timestamp = 300\<rparr>,
            \<lparr>ev_type = ''noteOn'', ev_note = 64, velocity = 1/2, timestamp = 400\<rparr>],
      isPlaying := True,
      timers :=
        [\<lparr>tid = 1, delay = 0, callback = PlaybackEvent \<lparr>ev_type = ''noteOn'', ev_note = 60, velocity = 1/2, timestamp = 0\<rparr> 0\<rparr>,
         \<lparr>tid = 2, delay = 100, callback = PlaybackEvent \<lparr>ev_type = ''noteOff'', ev_note = 60, velocity = 0, timestamp = 100\<rparr> 1\<rparr>,
         \<lparr>tid = 3, delay = 200, callback = PlaybackEvent \<lparr>ev_type = ''noteOn'', ev_note = 62, velocity = 1/2, timestamp = 200\<rparr> 2\<rparr>,
         \<lparr>tid = 4, delay = 300, callback = PlaybackEvent \<lparr>ev_type = ''noteOff'', ev_note = 62, velocity = 0, timestamp = 300\<rparr> 3\<rparr>,
         \<lparr>tid = 5, delay = 400, callback = PlaybackEvent \<lparr>ev_type = ''noteOn'', ev_note = 64, velocity = 1/2, timestamp = 400\<rparr> 4\<rparr>],
      nextTimer := 6,
      playbackTimeouts := [1, 2, 3, 4, 5]\<rparr>"
  by (simp add: run_def init_def newWorld_def loadRecording_def playRecording_eq upt_rec)

subsection \<open>A released voice is let go\<close>

lemma perform_nf: "faulty w = [] \<Longrightarrow> perform cs w = Returned (w\<lparr>trace := trace w @ cs\<rparr>)"
  by (simp add: perform_ok del: perform.simps)




lemma disconnectVoice_nf:
  "faulty w = [] \<Longrightarrow>
   disconnectVoice oscNode gainNode w =
     Returned (w\<lparr>trace := trace w @ [Disconnect oscNode, Disconnect gainNode]\<rparr>)"
  by (simp add: disconnectVoice_def perform_nf del: perform.simps)










lemma pr_disconnectVoice:
  assumes "pending_release n v T s w"
  shows "pending_release n v T s (settle (disconnectVoice oscNode gainNode w))"
  using assms
  by (auto simp: pending_release_def released_def disconnectVoice_nf)


















section \<open>Properties\<close>

subsection \<open>Recording\<close>

text \<open>
  Claim C7. \<^verbatim>\<open>recordEvent(e)\<close> changes nothing when the recorder is not recording.
  When it is recording, the state changes in one place only: the log gets one more
  entry at its end, the events recorded before stay as they were, and the new entry has
  the type, note and velocity of \<open>e\<close> and the timestamp of \<open>e\<close> minus
  \<open>recordingStartTime\<close>.
\<close>

theorem recordEvent_appends_normalized:
  "(\<not> isRecording w \<longrightarrow> recordEvent e w = w) \<and>
   (isRecording w \<longrightarrow>
      recordEvent e w =
        w\<lparr>recordedEvents :=
            recordedEvents w @
              [\<lparr>ev_type = ev_type e, ev_note = ev_note e, velocity = velocity e,
                timestamp = timestamp e - recordingStartTime w\<rparr>]\<rparr>)"
  by (simp add: recordEvent_def Let_def)

theorem recordEvent_appends_normalized_witness:
  "recordedEvents
     (recordEvent \<lparr>ev_type = ''noteOn'', ev_note = 60, velocity = 1 / 2, timestamp = 1250\<rparr>
        (startRecording (newWorld\<lparr>perfNow := 1000\<rparr>))) =
     [\<lparr>ev_type = ''noteOn'', ev_note = 60, velocity = 1 / 2, timestamp = 250\<rparr>] \<and>
   recordEvent \<lparr>ev_type = ''noteOn'', ev_note = 60, velocity = 1 / 2, timestamp = 1250\<rparr> newWorld
     = newWorld"
  using recordEvent_appends_normalized
          [of "startRecording (newWorld\<lparr>perfNow := 1000\<rparr>)"
              "\<lparr>ev_type = ''noteOn'', ev_note = 60, velocity = 1 / 2, timestamp = 1250\<rparr>"]
        recordEvent_appends_normalized
          [of newWorld
              "\<lparr>ev_type = ''noteOn'', ev_note = 60, velocity = 1 / 2, timestamp = 1250\<rparr>"]
  by (simp add: startRecording_def newWorld_def)

subsection \<open>Synthesis engine\<close>

text \<open>
  Claim C1. When the voice map already holds a voice for note \<open>n\<close>, \<^verbatim>\<open>playNote(n, v)\<close>
  returns without throwing and leaves the whole state as it was: no audio call, no timer,
  no change of the map or of the counter. Hence, on an initialized engine whose audio
  calls succeed, a second \<^verbatim>\<open>playNote(n)\<close> right after the first changes nothing and
  the map holds exactly one voice for \<open>n\<close>. In every state reachable from the initial one
  the map holds at most one voice per note.
\<close>

theorem playNote_idempotent_attack:
  "(map_of (activeNotes w) n \<noteq> None \<longrightarrow> playNote n v w = Returned w) \<and>
   (well_formed w \<and> isInitialized w \<and> faulty w = [] \<longrightarrow>
      run w [PlayNote n v, PlayNote n v'] = run w [PlayNote n v] \<and>
      length (voicesFor n (run w [PlayNote n v, PlayNote n v'])) = 1) \<and>
   length (voicesFor n (run newWorld as)) \<le> 1"
proof (intro conjI impI)
  assume "map_of (activeNotes w) n \<noteq> None"
  then show "playNote n v w = Returned w"
    by (simp add: playNote_def)
next
  assume a: "well_formed w \<and> isInitialized w \<and> faulty w = []"
  have "\<exists>w1. playNote n v w = Returned w1 \<and> length (voicesFor n w1) = 1 \<and>
          map_of (activeNotes w1) n \<noteq> None"
  proof (cases "map_of (activeNotes w) n")
    case None
    with a obtain w1 where 1: "playNote n v w = Returned w1"
      and 2: "activeNotes w1 = activeNotes w @
        [(n, \<lparr>osc = nextNode w, noteGain = Suc (nextNode w), startTime = currentTime w\<rparr>)]"
      using playNote_fresh[of w n v] by blast
    from 2 None have "length (voicesFor n w1) = 1" "map_of (activeNotes w1) n \<noteq> None"
      by (simp_all add: voicesFor_def filter_key_absent map_add_def)
    with 1 show ?thesis by blast
  next
    case (Some x)
    moreover from a have "distinct (map fst (activeNotes w))"
      by (simp add: well_formed_def voices_ok_def)
    ultimately have "playNote n v w = Returned w" "length (voicesFor n w) = 1"
      by (simp_all add: playNote_def voicesFor_def filter_key_present)
    with Some show ?thesis by auto
  qed
  then obtain w1 where 1: "playNote n v w = Returned w1" and 2: "length (voicesFor n w1) = 1"
    and 3: "map_of (activeNotes w1) n \<noteq> None"
    by blast
  from 3 have 4: "playNote n v' w1 = Returned w1"
    by (simp add: playNote_def)
  from 1 4 show "run w [PlayNote n v, PlayNote n v'] = run w [PlayNote n v]"
    by (simp add: run_def)
  from 1 2 4 show "length (voicesFor n (run w [PlayNote n v, PlayNote n v'])) = 1"
    by (simp add: run_def)
next
  have "well_formed (run newWorld as)"
    by (rule well_formed_run) (rule well_formed_newWorld)
  then have "distinct (map fst (activeNotes (run newWorld as)))"
    by (simp add: well_formed_def voices_ok_def)
  then show "length (voicesFor n (run newWorld as)) \<le> 1"
    unfolding voicesFor_def by (rule length_filter_key_le)
qed

theorem playNote_idempotent_attack_witness:
  "playNote 60 (1/2) (run newWorld [Init, PlayNote 60 (1/2)])
     = Returned (run newWorld [Init, PlayNote 60 (1/2)]) \<and>
   length (voicesFor 60 (run (run newWorld [Init]) [PlayNote 60 (1/2), PlayNote 60 (4/5)])) = 1 \<and>
   activeNotes (run (run newWorld [Init]) [PlayNote 60 (1/2), PlayNote 60 (4/5)])
     = [(60, \<lparr>osc = 1, noteGain = 2, startTime = 0\<rparr>)]"
proof -
  have 1: "map_of (activeNotes (run newWorld [Init, PlayNote 60 (1/2)])) 60 \<noteq> None"
    by (simp add: run_def init_def newWorld_def playNote_def Let_def)
  have 2: "well_formed (run newWorld [Init])"
    by (rule well_formed_run) (rule well_formed_newWorld)
  have 3: "isInitialized (run newWorld [Init]) \<and> faulty (run newWorld [Init]) = []"
    by (simp add: ready_world) (simp add: newWorld_def)
  have 4: "activeNotes (run (run newWorld [Init]) [PlayNote 60 (1/2), PlayNote 60 (4/5)])
     = [(60, \<lparr>osc = 1, noteGain = 2, startTime = 0\<rparr>)]"
    by (simp add: run_def init_def newWorld_def playNote_def Let_def)
  from 1 2 3 4
    playNote_idempotent_attack[where w = "run newWorld [Init, PlayNote 60 (1/2)]" and n = 60
       and v = "1/2" and v' = "1/2" and as = "[]"]
    playNote_idempotent_attack[where w = "run newWorld [Init]" and n = 60
       and v = "1/2" and v' = "4/5" and as = "[]"]
  show ?thesis by blast
qed

text \<open>
  The emergency stop of the Musical Keys revision. In every well-formed state, in
  particular in every reachable one, with any number of voices, \<^verbatim>\<open>stopAllNotes()\<close>
  returns (it does not throw, whatever audio calls fail), and in the state it returns in,
  before any of the timers it registered has fired, the voice map is empty and the voice
  counter is 0.
\<close>

theorem stopAllNotes_clears_synchronously:
  "(well_formed w \<longrightarrow>
      (\<exists>w'. stopAllNotes w = Returned w' \<and> activeNotes w' = [] \<and> activeNoteCount w' = 0 \<and>
            getActiveNoteCount w' = 0 \<and> voicesFor n w' = [])) \<and>
   well_formed (run newWorld as)"
proof (intro conjI impI)
  assume ok: "well_formed w"
  show "\<exists>w'. stopAllNotes w = Returned w' \<and> activeNotes w' = [] \<and> activeNoteCount w' = 0 \<and>
            getActiveNoteCount w' = 0 \<and> voicesFor n w' = []"
  proof (cases "isInitialized w")
    case False
    with ok have "activeNotes w = []" and "activeNoteCount w = 0"
      by (auto simp: well_formed_def voices_ok_def)
    with False show ?thesis
      by (simp add: stopAllNotes_def getActiveNoteCount_def voicesFor_def)
  next
    case True
    obtain pre ts where "stopVoices (currentTime w) (activeNotes w) w = Returned (grown w pre ts)"
      using stopVoices_grown by blast
    with True show ?thesis
      by (simp add: stopAllNotes_def Let_def getActiveNoteCount_def voicesFor_def)
  qed
next
  show "well_formed (run newWorld as)"
    by (rule well_formed_run) (rule well_formed_newWorld)
qed

theorem stopAllNotes_clears_synchronously_witness:
  "activeNotes (run newWorld [Init, PlayNote 60 (1/2), PlayNote 64 (1/2), StopNote 60])
     = [(60, \<lparr>osc = 1, noteGain = 2, startTime = 0\<rparr>), (64, \<lparr>osc = 3, noteGain = 4, startTime = 0\<rparr>)] \<and>
   (\<exists>w'. stopAllNotes (run newWorld [Init, PlayNote 60 (1/2), PlayNote 64 (1/2), StopNote 60])
            = Returned w' \<and>
         activeNotes w' = [] \<and> activeNoteCount w' = 0 \<and> getActiveNoteCount w' = 0 \<and>
         voicesFor 60 w' = []) \<and>
   (\<exists>w'. stopAllNotes newWorld = Returned w' \<and>
         activeNotes w' = [] \<and> activeNoteCount w' = 0 \<and> getActiveNoteCount w' = 0 \<and>
         voicesFor 60 w' = [])"
proof -
  have 1: "activeNotes (run newWorld [Init, PlayNote 60 (1/2), PlayNote 64 (1/2), StopNote 60])
     = [(60, \<lparr>osc = 1, noteGain = 2, startTime = 0\<rparr>), (64, \<lparr>osc = 3, noteGain = 4, startTime = 0\<rparr>)]"
    by (simp add: run_def init_def newWorld_def playNote_def stopNote_def setTimeout_def Let_def)
  from 1
    stopAllNotes_clears_synchronously
      [where w = "run newWorld [Init, PlayNote 60 (1/2), PlayNote 64 (1/2), StopNote 60]"
         and n = 60 and as = "[Init, PlayNote 60 (1/2), PlayNote 64 (1/2), StopNote 60]"]
    stopAllNotes_clears_synchronously [where w = "run newWorld []" and n = 60 and as = "[]"]
  show ?thesis by (simp add: run_def)
qed

text \<open>
  Claim C2: when \<^verbatim>\<open>stopAllNotes()\<close> returns, the voice map is empty and the voice count
  is 0, at once and not after a timer. The Musical Keys revision does this (the theorem
  above). The older revision does not: its \<^verbatim>\<open>stopAllNotes\<close> only calls \<^verbatim>\<open>stopNote\<close>
  for each key, and \<^verbatim>\<open>stopNote\<close> leaves the entry in the map for a closure that runs
  400 ms later. With the notes 60 and 64 sounding, the older \<^verbatim>\<open>stopAllNotes\<close> returns
  with both entries still in the map and two timers of 400 ms pending; the map is empty
  only after both have fired.
\<close>

theorem stopAllNotes_v1_returns_with_voices:
  "\<exists>w'. stopAllNotes_v1
           (settle (playNote_v1 64 (1/2) (settle (playNote_v1 60 (1/2) (settle (init newWorld))))))
         = Returned w' \<and>
        map fst (activeNotes w') = [60, 64] \<and>
        map callback (timers w') = [DeleteEntry 60, DeleteEntry 64] \<and>
        map delay (timers w') = [400, 400] \<and>
        map fst (activeNotes (fire 1 w')) = [64] \<and>
        activeNotes (fire 2 (fire 1 w')) = []"
  unfolding two_voices_v1
  by (simp add: stopAllNotes_v1_def stopNote_v1_def setTimeout_def newWorld_def Let_def
        fire_def clearTimeout_def runCallback_def deleteEntry_def)

subsection \<open>Recording document and playback\<close>

text \<open>
  Claim C3. For a state whose log is not empty, \<^verbatim>\<open>saveRecording\<close> produces a document,
  and \<^verbatim>\<open>loadRecording\<close> of that document, into any state and whatever the \<open>date\<close>
  field holds, succeeds and sets the log to the very list of events that was saved: same
  length, same order, and the same type, note, velocity and timestamp at every position.
\<close>

theorem save_load_roundtrip:
  "recordedEvents w \<noteq> [] \<longrightarrow>
     (\<exists>doc. saveRecording w = Some doc \<and>
        (\<forall>d. loadRecording (JSONObject (doc\<lparr>date := d\<rparr>)) w' =
               (w'\<lparr>recordedEvents := recordedEvents w\<rparr>, Inr (doc\<lparr>date := d\<rparr>))))"
  by (simp add: saveRecording_def hasRecording_def loadRecording_def)

theorem save_load_roundtrip_witness:
  "(\<exists>doc. saveRecording
           (newWorld\<lparr>recordedEvents :=
              [\<lparr>ev_type = ''noteOn'', ev_note = 60, velocity = 1/2, timestamp = 0\<rparr>,
               \<lparr>ev_type = ''noteOff'', ev_note = 60, velocity = 0, timestamp = 500\<rparr>],
              dateNow := ''2024-01-01T00:00:00.000Z''\<rparr>) = Some doc \<and>
      recordedEvents (fst (loadRecording (JSONObject (doc\<lparr>date := JString ''later''\<rparr>)) newWorld)) =
        [\<lparr>ev_type = ''noteOn'', ev_note = 60, velocity = 1/2, timestamp = 0\<rparr>,
         \<lparr>ev_type = ''noteOff'', ev_note = 60, velocity = 0, timestamp = 500\<rparr>])"
proof -
  let ?w = "newWorld\<lparr>recordedEvents :=
              [\<lparr>ev_type = ''noteOn'', ev_note = 60, velocity = 1/2, timestamp = 0\<rparr>,
               \<lparr>ev_type = ''noteOff'', ev_note = 60, velocity = 0, timestamp = 500\<rparr>],
              dateNow := ''2024-01-01T00:00:00.000Z''\<rparr>"
  have ne: "recordedEvents ?w \<noteq> []" by simp
  from save_load_roundtrip[where w = ?w and w' = newWorld] ne
  obtain doc where 1: "saveRecording ?w = Some doc"
    and 2: "\<forall>d. loadRecording (JSONObject (doc\<lparr>date := d\<rparr>)) newWorld =
               (newWorld\<lparr>recordedEvents := recordedEvents ?w\<rparr>, Inr (doc\<lparr>date := d\<rparr>))"
    by blast
  from 2 have "recordedEvents (fst (loadRecording (JSONObject (doc\<lparr>date := JString ''later''\<rparr>)) newWorld)) =
        [\<lparr>ev_type = ''noteOn'', ev_note = 60, velocity = 1/2, timestamp = 0\<rparr>,
         \<lparr>ev_type = ''noteOff'', ev_note = 60, velocity = 0, timestamp = 500\<rparr>]"
    by simp
  with 1 show ?thesis by blast
qed

text \<open>
  Claim C4. \<^verbatim>\<open>loadRecording\<close> is rejected exactly when the file does not deliver a
  document whose \<open>events\<close> property is an array. For a file that parses, the rejection is
  a format error: the \<^verbatim>\<open>Error('Invalid recording format')\<close> of the validation, or, for
  the one document \<^verbatim>\<open>null\<close>, the \<^verbatim>\<open>TypeError\<close> of reading its \<open>events\<close> property;
  text that does not parse is rejected with the \<^verbatim>\<open>SyntaxError\<close> of \<^verbatim>\<open>JSON.parse\<close>.
  Every rejection leaves the state, and so the recorded log, as it was. When the property
  is an array the load succeeds and the log becomes that array.
\<close>

theorem loadRecording_rejects_without_event_sequence:
  "((\<exists>e. snd (loadRecording f w) = Inl e) \<longleftrightarrow> \<not> has_event_sequence f) \<and>
   ((\<exists>e. snd (loadRecording f w) = Inl e \<and> format_error e) \<longleftrightarrow>
      parsed f \<and> \<not> has_event_sequence f) \<and>
   (snd (loadRecording f w) = Inl InvalidRecordingFormat \<longleftrightarrow>
      parsed f \<and> f \<noteq> JSONNull \<and> \<not> has_event_sequence f) \<and>
   (snd (loadRecording f w) = Inl SyntaxError \<longleftrightarrow> f = NotJSON) \<and>
   (\<forall>e. snd (loadRecording f w) = Inl e \<longrightarrow> fst (loadRecording f w) = w) \<and>
   (has_event_sequence f \<longrightarrow>
      (\<exists>data es. f = JSONObject data \<and> events data = JArray es \<and>
         loadRecording f w = (w\<lparr>recordedEvents := es\<rparr>, Inr data)))"
proof (cases f)
  case (JSONObject data)
  show ?thesis
  proof (cases "isArray (events data)")
    case True
    then obtain es where "events data = JArray es"
      by (cases "events data") simp_all
    with JSONObject show ?thesis
      by (simp add: loadRecording_def)
  next
    case False
    with JSONObject show ?thesis
      by (simp add: loadRecording_def)
  qed
qed (simp_all add: loadRecording_def)

theorem loadRecording_rejects_without_event_sequence_witness:
  "snd (loadRecording
       (JSONObject \<lparr>version = JString ''1.0'', date = JUndefined, duration = JNumber 0,
                    eventCount = JNumber 0, events = JUndefined\<rparr>)
       (newWorld\<lparr>recordedEvents := [\<lparr>ev_type = ''noteOn'', ev_note = 60, velocity = 1/2, timestamp = 0\<rparr>]\<rparr>))
     = Inl InvalidRecordingFormat \<and>
   fst (loadRecording
       (JSONObject \<lparr>version = JString ''1.0'', date = JUndefined, duration = JNumber 0,
                    eventCount = JNumber 0, events = JUndefined\<rparr>)
       (newWorld\<lparr>recordedEvents := [\<lparr>ev_type = ''noteOn'', ev_note = 60, velocity = 1/2, timestamp = 0\<rparr>]\<rparr>))
     = newWorld\<lparr>recordedEvents := [\<lparr>ev_type = ''noteOn'', ev_note = 60, velocity = 1/2, timestamp = 0\<rparr>]\<rparr> \<and>
   (\<exists>data es.
       loadRecording
         (JSONObject \<lparr>version = JString ''1.0'', date = JUndefined, duration = JNumber 0,
                      eventCount = JNumber 1,
                      events = JArray [\<lparr>ev_type = ''noteOn'', ev_note = 60, velocity = 1/2, timestamp = 0\<rparr>]\<rparr>)
         newWorld = (newWorld\<lparr>recordedEvents := es\<rparr>, Inr data))"
proof -
  let ?w = "newWorld\<lparr>recordedEvents := [\<lparr>ev_type = ''noteOn'', ev_note = 60, velocity = 1/2, timestamp = 0\<rparr>]\<rparr>"
  let ?missing = "JSONObject \<lparr>version = JString ''1.0'', date = JUndefined, duration = JNumber 0,
                    eventCount = JNumber 0, events = JUndefined\<rparr>"
  let ?good = "JSONObject \<lparr>version = JString ''1.0'', date = JUndefined, duration = JNumber 0,
                      eventCount = JNumber 1,
                      events = JArray [\<lparr>ev_type = ''noteOn'', ev_note = 60, velocity = 1/2, timestamp = 0\<rparr>]\<rparr>"
  note m = loadRecording_rejects_without_event_sequence[where f = ?missing and w = ?w]
  note g = loadRecording_rejects_without_event_sequence[where f = ?good and w = newWorld]
  have p: "parsed ?missing \<and> ?missing \<noteq> JSONNull \<and> \<not> has_event_sequence ?missing"
    by simp
  from m[THEN conjunct2, THEN conjunct2, THEN conjunct1] p
  have 1: "snd (loadRecording ?missing ?w) = Inl InvalidRecordingFormat"
    by (rule iffD2)
  from m[THEN conjunct2, THEN conjunct2, THEN conjunct2, THEN conjunct2, THEN conjunct1] 1
  have 2: "fst (loadRecording ?missing ?w) = ?w"
    by blast
  have q: "has_event_sequence ?good"
    by simp
  from g[THEN conjunct2, THEN conjunct2, THEN conjunct2, THEN conjunct2, THEN conjunct2] q
  have 3: "\<exists>data es. ?good = JSONObject data \<and> events data = JArray es \<and>
         loadRecording ?good newWorld = (newWorld\<lparr>recordedEvents := es\<rparr>, Inr data)"
    by (rule mp)
  then have 4: "\<exists>data es. loadRecording ?good newWorld = (newWorld\<lparr>recordedEvents := es\<rparr>, Inr data)"
    by blast
  from 1 2 4 show ?thesis by (intro conjI)
qed

text \<open>
  Claim C5. \<^verbatim>\<open>playRecording\<close> leaves the whole state as it was when a playback is
  running or the log is empty. Otherwise it sets \<open>isPlaying\<close>, registers one timer per
  recorded event, in the order of the log, with the timestamp of the event as the delay
  handed to \<^verbatim>\<open>setTimeout\<close> and with the event and its position captured by the
  closure, lists the identifiers of exactly these timers in \<open>playbackTimeouts\<close>, and
  changes nothing else.
\<close>

theorem playRecording_schedules_each_event:
  "(isPlaying w \<or> recordedEvents w = [] \<longrightarrow> playRecording w = w) \<and>
   (\<not> isPlaying w \<and> recordedEvents w \<noteq> [] \<longrightarrow>
      playRecording w =
        w\<lparr>isPlaying := True,
          timers := timers w @
            map (\<lambda>k. \<lparr>tid = nextTimer w + k, delay = timestamp (recordedEvents w ! k),
                      callback = PlaybackEvent (recordedEvents w ! k) k\<rparr>)
                [0..<length (recordedEvents w)],
          nextTimer := nextTimer w + length (recordedEvents w),
          playbackTimeouts := map (\<lambda>k. nextTimer w + k) [0..<length (recordedEvents w)]\<rparr> \<and>
      take (length (timers w)) (timers (playRecording w)) = timers w \<and>
      map delay (drop (length (timers w)) (timers (playRecording w))) =
        map timestamp (recordedEvents w) \<and>
      map tid (drop (length (timers w)) (timers (playRecording w))) =
        playbackTimeouts (playRecording w))"
proof (intro conjI impI)
  assume "isPlaying w \<or> recordedEvents w = []"
  then show "playRecording w = w" by (auto simp: playRecording_eq)
next
  assume a: "\<not> isPlaying w \<and> recordedEvents w \<noteq> []"
  then show eq: "playRecording w =
        w\<lparr>isPlaying := True,
          timers := timers w @
            map (\<lambda>k. \<lparr>tid = nextTimer w + k, delay = timestamp (recordedEvents w ! k),
                      callback = PlaybackEvent (recordedEvents w ! k) k\<rparr>)
                [0..<length (recordedEvents w)],
          nextTimer := nextTimer w + length (recordedEvents w),
          playbackTimeouts := map (\<lambda>k. nextTimer w + k) [0..<length (recordedEvents w)]\<rparr>"
    by (simp add: playRecording_eq)
  show "take (length (timers w)) (timers (playRecording w)) = timers w"
    unfolding eq by simp
  have "map (\<lambda>k. timestamp (recordedEvents w ! k)) [0..<length (recordedEvents w)] =
        map timestamp (map (\<lambda>k. recordedEvents w ! k) [0..<length (recordedEvents w)])"
    by simp
  also have "\<dots> = map timestamp (recordedEvents w)"
    by (simp only: map_nth)
  finally show "map delay (drop (length (timers w)) (timers (playRecording w))) =
        map timestamp (recordedEvents w)"
    unfolding eq by (simp add: o_def)
  show "map tid (drop (length (timers w)) (timers (playRecording w))) =
        playbackTimeouts (playRecording w)"
    unfolding eq by (simp add: o_def)
qed

theorem playRecording_schedules_each_event_witness:
  "playRecording
     (newWorld\<lparr>recordedEvents :=
        [\<lparr>ev_type = ''noteOn'', ev_note = 60, velocity = 1/2, timestamp = 0\<rparr>,
         \<lparr>ev_type = ''noteOff'', ev_note = 60, velocity = 0, timestamp = 500\<rparr>]\<rparr>) =
   newWorld\<lparr>recordedEvents :=
        [\<lparr>ev_type = ''noteOn'', ev_note = 60, velocity = 1/2, timestamp = 0\<rparr>,
         \<lparr>ev_type = ''noteOff'', ev_note = 60, velocity = 0, timestamp = 500\<rparr>],
      isPlaying := True,
      timers :=
        [\<lparr>tid = 1, delay = 0,
          callback = PlaybackEvent \<lparr>ev_type = ''noteOn'', ev_note = 60, velocity = 1/2, timestamp = 0\<rparr> 0\<rparr>,
         \<lparr>tid = 2, delay = 500,
          callback = PlaybackEvent \<lparr>ev_type = ''noteOff'', ev_note = 60, velocity = 0, timestamp = 500\<rparr> 1\<rparr>],
      nextTimer := 3,
      playbackTimeouts := [1, 2]\<rparr> \<and>
   playRecording newWorld = newWorld \<and>
   playRecording
     (newWorld\<lparr>recordedEvents :=
        [\<lparr>ev_type = ''noteOn'', ev_note = 60, velocity = 1/2, timestamp = 0\<rparr>], isPlaying := True\<rparr>) =
     newWorld\<lparr>recordedEvents :=
        [\<lparr>ev_type = ''noteOn'', ev_note = 60, velocity = 1/2, timestamp = 0\<rparr>], isPlaying := True\<rparr>"
  using playRecording_schedules_each_event
     [where w = "newWorld\<lparr>recordedEvents :=
        [\<lparr>ev_type = ''noteOn'', ev_note = 60, velocity = 1/2, timestamp = 0\<rparr>,
         \<lparr>ev_type = ''noteOff'', ev_note = 60, velocity = 0, timestamp = 500\<rparr>]\<rparr>"]
    playRecording_schedules_each_event [where w = newWorld]
    playRecording_schedules_each_event
     [where w = "newWorld\<lparr>recordedEvents :=
        [\<lparr>ev_type = ''noteOn'', ev_note = 60, velocity = 1/2, timestamp = 0\<rparr>], isPlaying := True\<rparr>"]
  by (simp add: newWorld_def upt_rec)

subsection \<open>Deferred cleanup\<close>

text \<open>
  The guard of the Musical Keys revision. The closure \<^verbatim>\<open>stopNote\<close> registers changes the
  voice map only if the entry of its note holds the oscillator the closure captured. A
  voice created after the closure was registered has an oscillator created later, hence
  another one: whatever happens between, when the timer of the closure fires, such a
  voice stays in the map.
\<close>

theorem cleanup_spares_newer_voice:
  "(cleanup n oscNode gainNode w = Returned w' \<and> activeNotes w' \<noteq> activeNotes w \<longrightarrow>
      (\<exists>v. map_of (activeNotes w) n = Some v \<and> osc v = oscNode)) \<and>
   (well_formed w \<and> t \<in> set (timers w) \<and> callback t = Cleanup n oscNode gainNode \<longrightarrow>
      nextNode w \<le> nextNode (run w as) \<and>
      (\<forall>v'. map_of (activeNotes (run w as)) n = Some v' \<and> nextNode w \<le> osc v' \<longrightarrow>
            map_of (activeNotes (fire (tid t) (run w as))) n = Some v'))"
proof (intro conjI impI allI)
  assume "cleanup n oscNode gainNode w = Returned w' \<and> activeNotes w' \<noteq> activeNotes w"
  then show "\<exists>v. map_of (activeNotes w) n = Some v \<and> osc v = oscNode"
    using cleanup_shape[of n oscNode gainNode w] by auto
next
  assume a: "well_formed w \<and> t \<in> set (timers w) \<and> callback t = Cleanup n oscNode gainNode"
  have adv: "advances w (run w as)" by (rule advances_run)
  then show "nextNode w \<le> nextNode (run w as)" by (simp add: advances_def)
  fix v'
  assume b: "map_of (activeNotes (run w as)) n = Some v' \<and> nextNode w \<le> osc v'"
  from a have "cleanup_known (nextNode w) (callback t)"
    by (auto simp: well_formed_def timers_ok_def)
  with a b have ne: "osc v' \<noteq> oscNode" by simp
  show "map_of (activeNotes (fire (tid t) (run w as))) n = Some v'"
  proof (cases "find (\<lambda>x. tid x = tid t) (timers (run w as))")
    case None
    with b show ?thesis by (simp add: fire_def)
  next
    case (Some t')
    with a adv have "t' = t" by (auto intro: find_fresh_timer)
    with a Some b ne show ?thesis
      by (simp add: fire_def runCallback_def cleanup_def clearTimeout_def)
  qed
qed

text \<open>
  Claim C9: the cleanup an older \<^verbatim>\<open>stopNote(n)\<close> scheduled never deletes a newer voice
  of \<open>n\<close>. The Musical Keys revision guards its closure (the theorem above). The closure
  of the older revision has no guard and deletes whatever entry the note has. The note 60
  is played and released twice over (two keys of the keyboard play it), the first timer
  fires, the note is played again, and the second timer fires: the new voice, whose
  oscillator 3 was started and never stopped, is deleted from the map, so that no later
  \<^verbatim>\<open>stopNote(60)\<close> can reach it.
\<close>

theorem deleteEntry_v1_removes_newer_voice:
  "activeNotes
     (settle (playNote_v1 60 (1/2)
       (fire 1 (settle (stopNote_v1 60 (settle (stopNote_v1 60
         (settle (playNote_v1 60 (1/2) (settle (init newWorld)))))))))))
     = [(60, \<lparr>osc = 3, noteGain = 4, startTime = 0\<rparr>)] \<and>
   activeNotes
     (fire 2 (settle (playNote_v1 60 (1/2)
       (fire 1 (settle (stopNote_v1 60 (settle (stopNote_v1 60
         (settle (playNote_v1 60 (1/2) (settle (init newWorld))))))))))))
     = [] \<and>
   OscStart 3 0 \<in> set (trace
     (fire 2 (settle (playNote_v1 60 (1/2)
       (fire 1 (settle (stopNote_v1 60 (settle (stopNote_v1 60
         (settle (playNote_v1 60 (1/2) (settle (init newWorld))))))))))))) \<and>
   (\<forall>x. OscStop 3 x \<notin> set (trace
     (fire 2 (settle (playNote_v1 60 (1/2)
       (fire 1 (settle (stopNote_v1 60 (settle (stopNote_v1 60
         (settle (playNote_v1 60 (1/2) (settle (init newWorld))))))))))))))"
  by (simp add: init_def newWorld_def playNote_v1_def stopNote_v1_def setTimeout_def Let_def
        fire_def clearTimeout_def runCallback_def deleteEntry_def)

subsection \<open>Stopping a playback\<close>

text \<open>
  Claim C6. \<^verbatim>\<open>stopPlayback\<close> leaves the whole state as it was when no playback is
  running. When one is running it returns (it does not throw) in the state obtained by
  removing from the queue every timer listed in \<open>playbackTimeouts\<close>, emptying that list,
  running \<^verbatim>\<open>stopAllNotes\<close> and clearing \<open>isPlaying\<close>. In a well-formed state, so in
  every reachable one and however soon after \<^verbatim>\<open>playRecording\<close>, no playback closure
  is pending once it has returned, and none becomes pending in any continuation that does
  not call \<^verbatim>\<open>playRecording\<close> again; since a closure runs only when its timer fires,
  none of the cancelled note-on or note-off calls happens.
\<close>

theorem stopPlayback_cancels_pending:
  "(\<not> isPlaying w \<longrightarrow> stopPlayback w = Returned w) \<and>
   (isPlaying w \<longrightarrow>
      stopPlayback w =
        Returned
          ((settle (stopAllNotes
              (w\<lparr>timers := filter (\<lambda>t. tid t \<notin> set (playbackTimeouts w)) (timers w),
                 playbackTimeouts := []\<rparr>)))\<lparr>isPlaying := False\<rparr>)) \<and>
   (well_formed w \<longrightarrow>
      \<not> isPlaying (settle (stopPlayback w)) \<and>
      (\<forall>t \<in> set (timers (settle (stopPlayback w))). \<not> is_playback (callback t)) \<and>
      (PlayRecording \<notin> set as \<longrightarrow>
         (\<forall>t \<in> set (timers (run (settle (stopPlayback w)) as)). \<not> is_playback (callback t))))"
proof (intro conjI impI)
  assume "\<not> isPlaying w"
  then show "stopPlayback w = Returned w" by (simp add: stopPlayback_eq)
next
  assume "isPlaying w"
  then show "stopPlayback w =
        Returned
          ((settle (stopAllNotes
              (w\<lparr>timers := filter (\<lambda>t. tid t \<notin> set (playbackTimeouts w)) (timers w),
                 playbackTimeouts := []\<rparr>)))\<lparr>isPlaying := False\<rparr>)"
    by (simp add: stopPlayback_eq)
next
  assume ok: "well_formed w"
  let ?w' = "settle (stopPlayback w)"
  show idle: "\<not> isPlaying ?w'"
    by (simp add: stopPlayback_eq)
  from ok have "well_formed ?w'" by (rule well_formed_stopPlayback)
  with idle show quiet: "\<forall>t \<in> set (timers ?w'). \<not> is_playback (callback t)"
    by (auto simp: well_formed_def timers_ok_def)
  assume "PlayRecording \<notin> set as"
  then have "adds_no_playback ?w' (run ?w' as)"
    by (rule adds_no_playback_run)
  with quiet show "\<forall>t \<in> set (timers (run ?w' as)). \<not> is_playback (callback t)"
    by (auto simp: adds_no_playback_def)
qed

theorem stopPlayback_cancels_pending_witness:
  "length (filter (\<lambda>t. is_playback (callback t))
     (timers (run newWorld
     [Init,
      LoadRecording (JSONObject
        \<lparr>version = JString ''1.0'', date = JString ''d'', duration = JNumber 400,
         eventCount = JNumber 5,
         events = JArray
           [\<lparr>ev_type = ''noteOn'', ev_note = 60, velocity = 1/2, timestamp = 0\<rparr>,
            \<lparr>ev_type = ''noteOff'', ev_note = 60, velocity = 0, timestamp = 100\<rparr>,
            \<lparr>ev_type = ''noteOn'', ev_note = 62, velocity = 1/2, timestamp = 200\<rparr>,
            \<lparr>ev_type = ''noteOff'', ev_note = 62, velocity = 0, timestamp = 300\<rparr>,
            \<lparr>ev_type = ''noteOn'', ev_note = 64, velocity = 1/2, timestamp = 400\<rparr>]\<rparr>),
      PlayRecording]))) = 5 \<and>
   filter (\<lambda>t. is_playback (callback t))
     (timers (run (settle (stopPlayback (run newWorld
     [Init,
      LoadRecording (JSONObject
        \<lparr>version = JString ''1.0'', date = JString ''d'', duration = JNumber 400,
         eventCount = JNumber 5,
         events = JArray
           [\<lparr>ev_type = ''noteOn'', ev_note = 60, velocity = 1/2, timestamp = 0\<rparr>,
            \<lparr>ev_type = ''noteOff'', ev_note = 60, velocity = 0, timestamp = 100\<rparr>,
            \<lparr>ev_type = ''noteOn'', ev_note = 62, velocity = 1/2, timestamp = 200\<rparr>,
            \<lparr>ev_type = ''noteOff'', ev_note = 62, velocity = 0, timestamp = 300\<rparr>,
            \<lparr>ev_type = ''noteOn'', ev_note = 64, velocity = 1/2, timestamp = 400\<rparr>]\<rparr>),
      PlayRecording])))
      [Fire 1, Fire 2, Fire 3, Fire 4, Fire 5])) = []"
proof -
  let ?acts = "[Init,
      LoadRecording (JSONObject
        \<lparr>version = JString ''1.0'', date = JString ''d'', duration = JNumber 400,
         eventCount = JNumber 5,
         events = JArray
           [\<lparr>ev_type = ''noteOn'', ev_note = 60, velocity = 1/2, timestamp = 0\<rparr>,
            \<lparr>ev_type = ''noteOff'', ev_note = 60, velocity = 0, timestamp = 100\<rparr>,
            \<lparr>ev_type = ''noteOn'', ev_note = 62, velocity = 1/2, timestamp = 200\<rparr>,
            \<lparr>ev_type = ''noteOff'', ev_note = 62, velocity = 0, timestamp = 300\<rparr>,
            \<lparr>ev_type = ''noteOn'', ev_note = 64, velocity = 1/2, timestamp = 400\<rparr>]\<rparr>),
      PlayRecording]"
  have 1: "length (filter (\<lambda>t. is_playback (callback t)) (timers (run newWorld ?acts))) = 5"
    unfolding five_event_playback by (simp add: newWorld_def)
  have 2: "well_formed (run newWorld ?acts)"
    by (rule well_formed_run) (rule well_formed_newWorld)
  have 3: "PlayRecording \<notin> set [Fire 1, Fire 2, Fire 3, Fire 4, Fire 5]"
    by simp
  from stopPlayback_cancels_pending
         [where w = "run newWorld ?acts" and as = "[Fire 1, Fire 2, Fire 3, Fire 4, Fire 5]"] 2 3
  have "\<forall>t \<in> set (timers (run (settle (stopPlayback (run newWorld ?acts)))
            [Fire 1, Fire 2, Fire 3, Fire 4, Fire 5])). \<not> is_playback (callback t)"
    by blast
  then have "filter (\<lambda>t. is_playback (callback t))
     (timers (run (settle (stopPlayback (run newWorld ?acts)))
        [Fire 1, Fire 2, Fire 3, Fire 4, Fire 5])) = []"
    by (simp add: filter_empty_conv)
  with 1 show ?thesis by (intro conjI)
qed

text \<open>
  Claim C10. Playback never writes the log. Along any sequence of actions that contains
  none of the four that write it (\<^verbatim>\<open>startRecording\<close>, \<^verbatim>\<open>recordEvent\<close>,
  \<^verbatim>\<open>loadRecording\<close>, \<^verbatim>\<open>clearRecording\<close>), so along any sequence of calls of
  \<^verbatim>\<open>playRecording\<close> and \<^verbatim>\<open>stopPlayback\<close> and firings of timers, the log stays the
  list it was, and \<^verbatim>\<open>saveRecording\<close> produces the same document up to its date.
\<close>

theorem playback_preserves_log:
  "(\<forall>a \<in> set as. a = PlayRecording \<or> a = StopPlayback \<or> (\<exists>i. a = Fire i) \<or> \<not> mutates_log a) \<longrightarrow>
     recordedEvents (run w as) = recordedEvents w \<and>
     saveRecording (run w as) = saveRecording (w\<lparr>dateNow := dateNow (run w as)\<rparr>)"
proof
  assume "\<forall>a \<in> set as. a = PlayRecording \<or> a = StopPlayback \<or> (\<exists>i. a = Fire i) \<or> \<not> mutates_log a"
  then have "\<forall>a \<in> set as. \<not> mutates_log a" by auto
  then have "recordedEvents (run w as) = recordedEvents w"
    by (rule same_log_run)
  then show "recordedEvents (run w as) = recordedEvents w \<and>
     saveRecording (run w as) = saveRecording (w\<lparr>dateNow := dateNow (run w as)\<rparr>)"
    by (simp add: saveRecording_def hasRecording_def)
qed

theorem playback_preserves_log_witness:
  "recordedEvents
     (run (newWorld\<lparr>isInitialized := True, recordedEvents :=
            [\<lparr>ev_type = ''noteOn'', ev_note = 60, velocity = 1/2, timestamp = 0\<rparr>,
             \<lparr>ev_type = ''noteOff'', ev_note = 60, velocity = 0, timestamp = 500\<rparr>]\<rparr>)
        [PlayRecording, Fire 1, Fire 2, Fire 3, Fire 4, PlayRecording, StopPlayback]) =
     [\<lparr>ev_type = ''noteOn'', ev_note = 60, velocity = 1/2, timestamp = 0\<rparr>,
      \<lparr>ev_type = ''noteOff'', ev_note = 60, velocity = 0, timestamp = 500\<rparr>]"
  using playback_preserves_log
    [where w = "newWorld\<lparr>isInitialized := True, recordedEvents :=
            [\<lparr>ev_type = ''noteOn'', ev_note = 60, velocity = 1/2, timestamp = 0\<rparr>,
             \<lparr>ev_type = ''noteOff'', ev_note = 60, velocity = 0, timestamp = 500\<rparr>]\<rparr>"
       and as = "[PlayRecording, Fire 1, Fire 2, Fire 3, Fire 4, PlayRecording, StopPlayback]"]
  by simp

subsection \<open>Release of a voice\<close>



end
